theory Spec2Isabelle
  imports Complex_Main "HOL-Library.Word"
begin

unbundle bit_operations_syntax

section \<open>Machine types and raw memory\<close>

text \<open>
  The addon (\<^verbatim>\<open>src/native/usnscanner/addon.cpp\<close>) reads NTFS structures by casting
  byte pointers to packed structs. A buffer is modelled as a function from byte offsets to
  bytes; a multi-byte field is read little-endian at its offset in the packed layout.
  \<^verbatim>\<open>long long\<close> and \<^verbatim>\<open>ULONGLONG\<close> are 64-bit words (\<open>sint\<close> gives the signed
  reading, \<open>unat\<close> the unsigned one); arithmetic on them wraps.
\<close>

type_synonym byte = "8 word"
type_synonym WORD = "16 word"
type_synonym DWORD = "32 word"
type_synonym ULONGLONG = "64 word"
type_synonym longlong = "64 word"
type_synonym memory = "nat \<Rightarrow> byte"

definition bytes_mem :: "byte list \<Rightarrow> memory" where
  "bytes_mem bs = (\<lambda>i. if i < length bs then bs ! i else 0)"

definition bytes_at :: "memory \<Rightarrow> nat \<Rightarrow> nat \<Rightarrow> byte list" where
  "bytes_at mem p n = map (\<lambda>i. mem (p + i)) [0..<n]"

fun le_nat :: "byte list \<Rightarrow> nat" where
  "le_nat [] = 0"
| "le_nat (b # bs) = unat b + 256 * le_nat bs"

definition rd16 :: "memory \<Rightarrow> nat \<Rightarrow> WORD" where
  "rd16 mem p = word_of_nat (le_nat (bytes_at mem p 2))"

definition rd32 :: "memory \<Rightarrow> nat \<Rightarrow> DWORD" where
  "rd32 mem p = word_of_nat (le_nat (bytes_at mem p 4))"

definition rd64 :: "memory \<Rightarrow> nat \<Rightarrow> ULONGLONG" where
  "rd64 mem p = word_of_nat (le_nat (bytes_at mem p 8))"

subsection \<open>Packed struct layouts\<close>

text \<open>
  \<^verbatim>\<open>FileRecordHeader\<close> (48 bytes) and \<^verbatim>\<open>AttributeRecordHeader\<close> (72 bytes, the
  resident and non-resident bodies sharing offset 16) under \<^verbatim>\<open>#pragma pack(1)\<close>.
  Each accessor takes the buffer and the offset of the struct.
\<close>

definition sizeof_FileRecordHeader :: nat where
  "sizeof_FileRecordHeader = 48"

definition sizeof_AttributeRecordHeader :: nat where
  "sizeof_AttributeRecordHeader = 72"

definition hdr_Magic :: "memory \<Rightarrow> nat \<Rightarrow> DWORD" where
  "hdr_Magic mem h = rd32 mem h"

definition hdr_HardLinkCount :: "memory \<Rightarrow> nat \<Rightarrow> WORD" where
  "hdr_HardLinkCount mem h = rd16 mem (h + 18)"

definition hdr_FirstAttributeOffset :: "memory \<Rightarrow> nat \<Rightarrow> WORD" where
  "hdr_FirstAttributeOffset mem h = rd16 mem (h + 20)"

definition hdr_Flags :: "memory \<Rightarrow> nat \<Rightarrow> WORD" where
  "hdr_Flags mem h = rd16 mem (h + 22)"

definition hdr_BaseFileRecord :: "memory \<Rightarrow> nat \<Rightarrow> ULONGLONG" where
  "hdr_BaseFileRecord mem h = rd64 mem (h + 32)"

definition attr_Type :: "memory \<Rightarrow> nat \<Rightarrow> DWORD" where
  "attr_Type mem a = rd32 mem a"

definition attr_Length :: "memory \<Rightarrow> nat \<Rightarrow> DWORD" where
  "attr_Length mem a = rd32 mem (a + 4)"

definition attr_NonResident :: "memory \<Rightarrow> nat \<Rightarrow> byte" where
  "attr_NonResident mem a = mem (a + 8)"

definition attr_NameLength :: "memory \<Rightarrow> nat \<Rightarrow> byte" where
  "attr_NameLength mem a = mem (a + 9)"

definition attr_NameOffset :: "memory \<Rightarrow> nat \<Rightarrow> WORD" where
  "attr_NameOffset mem a = rd16 mem (a + 10)"

definition Resident_ValueLength :: "memory \<Rightarrow> nat \<Rightarrow> DWORD" where
  "Resident_ValueLength mem a = rd32 mem (a + 16)"

definition Resident_ValueOffset :: "memory \<Rightarrow> nat \<Rightarrow> WORD" where
  "Resident_ValueOffset mem a = rd16 mem (a + 20)"

definition NonResidentData_LowestVcn :: "memory \<Rightarrow> nat \<Rightarrow> ULONGLONG" where
  "NonResidentData_LowestVcn mem a = rd64 mem (a + 16)"

definition NonResidentData_RunOffset :: "memory \<Rightarrow> nat \<Rightarrow> WORD" where
  "NonResidentData_RunOffset mem a = rd16 mem (a + 32)"

definition NonResidentData_AllocatedSize :: "memory \<Rightarrow> nat \<Rightarrow> ULONGLONG" where
  "NonResidentData_AllocatedSize mem a = rd64 mem (a + 40)"

definition NonResidentData_DataSize :: "memory \<Rightarrow> nat \<Rightarrow> ULONGLONG" where
  "NonResidentData_DataSize mem a = rd64 mem (a + 48)"

section \<open>Shared decoders\<close>

subsection \<open>ReadSignedValue\<close>

text \<open>
  \<^verbatim>\<open>long long ReadSignedValue(const BYTE *data, int size)\<close>: widths outside 1..8 give 0;
  otherwise the bytes are OR-ed in little-endian order and, for a width below 8 whose last
  byte has bit 7 set, \<^verbatim>\<open>-1LL << (size * 8)\<close> is OR-ed in.
\<close>

definition ReadSignedValue :: "memory \<Rightarrow> nat \<Rightarrow> int \<Rightarrow> longlong" where
  "ReadSignedValue mem data sz =
     (if sz \<le> 0 \<or> sz > 8 then 0
      else let v = fold (\<lambda>i v. v OR push_bit (8 * i) (ucast (mem (data + i)))) [0..<nat sz] 0
           in if sz < 8 \<and> mem (data + nat sz - 1) AND 0x80 \<noteq> 0
              then v OR push_bit (nat sz * 8) (- 1)
              else v)"

text \<open>
  The two's-complement value of an \<open>n\<close>-byte unsigned quantity \<open>u\<close>, as the format
  defines it; used to state what the decoder must return.
\<close>

definition twos_complement :: "nat \<Rightarrow> nat \<Rightarrow> int" where
  "twos_complement n u = (if 2 ^ (8 * n - 1) \<le> u then int u - 2 ^ (8 * n) else int u)"

subsection \<open>Data runs\<close>

text \<open>
  \<^verbatim>\<open>struct DataRunSegment { long long vcnStart, lcn, length; bool sparse; }\<close>. The field
  \<^verbatim>\<open>length\<close> is named \<open>length_run\<close> here (\<open>length\<close> is the list length in HOL).
\<close>

record DataRunSegment =
  vcnStart :: longlong
  lcn :: longlong
  length_run :: longlong
  sparse :: bool

text \<open>
  The \<^verbatim>\<open>while (runPtr < end && *runPtr != 0)\<close> loop of \<^verbatim>\<open>ParseRunList\<close>. Pointers are
  offsets into the buffer. A \<^verbatim>\<open>break\<close> ends the list. The run length is assembled with
  shifts by \<open>8 * i\<close>; for a length field wider than 8 bytes the C++ shift is undefined, and
  \<open>push_bit\<close> by 64 or more gives 0 here.
\<close>

function ParseRunList_loop ::
  "memory \<Rightarrow> nat \<Rightarrow> nat \<Rightarrow> longlong \<Rightarrow> longlong \<Rightarrow> DataRunSegment list" where
  "ParseRunList_loop mem runPtr endp currentVCN currentLCN =
     (if runPtr < endp \<and> mem runPtr \<noteq> 0 then
        (let headerByte = mem runPtr;
             lengthFieldSize = uint (headerByte AND 0x0F);
             offsetFieldSize = uint (drop_bit 4 headerByte AND 0x0F)
         in if lengthFieldSize \<le> 0 \<or> offsetFieldSize < 0
               \<or> int (runPtr + 1) + lengthFieldSize + offsetFieldSize > int endp
            then []
            else
              (let runLength = fold (\<lambda>i v. v OR push_bit (8 * i) (ucast (mem (runPtr + 1 + i))))
                                 [0..<nat lengthFieldSize] 0;
                   runPtr2 = runPtr + 1 + nat lengthFieldSize;
                   runOffset = ReadSignedValue mem runPtr2 offsetFieldSize;
                   runPtr3 = runPtr2 + nat offsetFieldSize;
                   newLCN = currentLCN + runOffset
               in \<lparr>vcnStart = currentVCN, lcn = newLCN, length_run = runLength,
                    sparse = (offsetFieldSize = 0)\<rparr>
                  # ParseRunList_loop mem runPtr3 endp (currentVCN + runLength) newLCN))
      else [])"
  by pat_completeness auto
termination
  by (relation "measure (\<lambda>(mem, runPtr, endp, vcn, lcn). endp - runPtr)") auto

declare ParseRunList_loop.simps [simp del]

definition ParseRunList :: "memory \<Rightarrow> nat \<Rightarrow> DataRunSegment list" where
  "ParseRunList mem header =
     (if attr_NonResident mem header = 0 then []
      else ParseRunList_loop mem
             (header + unat (NonResidentData_RunOffset mem header))
             (header + unat (attr_Length mem header))
             (NonResidentData_LowestVcn mem header) 0)"

subsection \<open>The run-list format, as the specification gives it\<close>

text \<open>
  A run of the on-disk run list (spec section 4.3.1): a header byte whose low nibble is the
  width of the length field and whose high nibble is the width of the offset field, the
  length as an unsigned little-endian integer, and the delta as a signed little-endian
  two's-complement integer; the list ends with a zero byte. This encoder follows the
  specification's words and is what the decoder of the source is compared with.
\<close>

record run_spec =
  enc_lengthSize :: nat
  enc_lengthClusters :: nat
  enc_offsetSize :: nat
  enc_signedDelta :: int

definition le_bytes :: "nat \<Rightarrow> nat \<Rightarrow> byte list" where
  "le_bytes n v = map (\<lambda>i. word_of_nat (v div 256 ^ i)) [0..<n]"

definition encode_run :: "run_spec \<Rightarrow> byte list" where
  "encode_run r =
     word_of_nat (enc_lengthSize r + 16 * enc_offsetSize r)
     # le_bytes (enc_lengthSize r) (enc_lengthClusters r)
     @ le_bytes (enc_offsetSize r) (nat (enc_signedDelta r mod 2 ^ (8 * enc_offsetSize r)))"

definition encode_run_list :: "run_spec list \<Rightarrow> byte list" where
  "encode_run_list rs = concat (map encode_run rs) @ [0]"

text \<open>
  A run is well formed when its field widths are 1..8 (length) and 0..8 (offset), the
  length fits its field, and the delta fits its field as a signed value (a field of width
  0 carries the delta 0).
\<close>

definition well_formed_run :: "run_spec \<Rightarrow> bool" where
  "well_formed_run r =
     (1 \<le> enc_lengthSize r \<and> enc_lengthSize r \<le> 8 \<and> enc_offsetSize r \<le> 8
      \<and> enc_lengthClusters r < 2 ^ (8 * enc_lengthSize r)
      \<and> (if enc_offsetSize r = 0 then enc_signedDelta r = 0
         else - (2 ^ (8 * enc_offsetSize r - 1)) \<le> enc_signedDelta r
            \<and> enc_signedDelta r < 2 ^ (8 * enc_offsetSize r - 1)))"

text \<open>
  The segments the specification expects for a list of runs, with the running totals
  \<open>currentVcn\<close> and \<open>currentLcn\<close> of spec section 4.3.1.
\<close>

fun expected_segments :: "longlong \<Rightarrow> longlong \<Rightarrow> run_spec list \<Rightarrow> DataRunSegment list" where
  "expected_segments currentVcn currentLcn [] = []"
| "expected_segments currentVcn currentLcn (r # rs) =
     \<lparr>vcnStart = currentVcn,
      lcn = currentLcn + word_of_int (enc_signedDelta r),
      length_run = word_of_nat (enc_lengthClusters r),
      sparse = (enc_offsetSize r = 0)\<rparr>
     # expected_segments (currentVcn + word_of_nat (enc_lengthClusters r))
         (currentLcn + word_of_int (enc_signedDelta r)) rs"

text \<open>A buffer holds the bytes \<open>bs\<close> at offset \<open>p\<close>.\<close>

definition holds_at :: "memory \<Rightarrow> nat \<Rightarrow> byte list \<Rightarrow> bool" where
  "holds_at mem p bs = (bytes_at mem p (length bs) = bs)"

text \<open>
  Two concrete attribute records used to exercise the decoder. The first is the
  non-resident attribute of the specification's scenario 2: \<open>NonResident = 1\<close>,
  \<open>Length = 80\<close>, \<open>RunOffset = 64\<close>, \<open>LowestVcn = 0\<close>, and the run list
  \<open>21 03 E8 03 | 01 02 | 00\<close> (3 clusters at delta +1000, then 2 sparse clusters). The
  second differs only in its run list, \<open>01 00 | 00\<close>: one run whose length field is zero.
\<close>

definition scenario_attribute :: memory where
  "scenario_attribute =
     (\<lambda>i. if i = 0 then 0x80 else if i = 4 then 80 else if i = 8 then 1
          else if i = 32 then 64 else if i = 64 then 0x21 else if i = 65 then 0x03
          else if i = 66 then 0xE8 else if i = 67 then 0x03 else if i = 68 then 0x01
          else if i = 69 then 0x02 else 0)"

definition scenario_runs :: "run_spec list" where
  "scenario_runs =
     [\<lparr>enc_lengthSize = 1, enc_lengthClusters = 3, enc_offsetSize = 2, enc_signedDelta = 1000\<rparr>,
      \<lparr>enc_lengthSize = 1, enc_lengthClusters = 2, enc_offsetSize = 0, enc_signedDelta = 0\<rparr>]"

definition zero_length_attribute :: memory where
  "zero_length_attribute =
     (\<lambda>i. if i = 0 then 0x80 else if i = 4 then 80 else if i = 8 then 1
          else if i = 32 then 64 else if i = 64 then 0x01 else 0)"

text \<open>
  Two more for the running totals. \<open>continuation_attribute\<close> is the first record with
  \<open>LowestVcn = 5\<close>, as in a later extent of a file. \<open>overflow_attribute\<close> has
  \<open>Length = 96\<close> and the run list
  \<open>88 00 00 00 00 00 00 00 80 00 00 00 00 00 00 00 40 | 81 01 00 00 00 00 00 00 00 40 | 00\<close>:
  a run of \<open>2 ^ 63\<close> clusters at delta \<open>2 ^ 62\<close>, then one cluster at delta \<open>2 ^ 62\<close>.
\<close>

definition continuation_attribute :: memory where
  "continuation_attribute = (\<lambda>i. if i = 16 then 5 else scenario_attribute i)"

definition overflow_attribute :: memory where
  "overflow_attribute =
     (\<lambda>i. if i = 0 then 0x80 else if i = 4 then 96 else if i = 8 then 1
          else if i = 32 then 64 else if i = 64 then 0x88 else if i = 72 then 0x80
          else if i = 80 then 0x40 else if i = 81 then 0x81 else if i = 82 then 0x01
          else if i = 90 then 0x40 else 0)"

definition overflow_runs :: "run_spec list" where
  "overflow_runs =
     [\<lparr>enc_lengthSize = 8, enc_lengthClusters = 2 ^ 63, enc_offsetSize = 8,
       enc_signedDelta = 2 ^ 62\<rparr>,
      \<lparr>enc_lengthSize = 1, enc_lengthClusters = 1, enc_offsetSize = 8,
       enc_signedDelta = 2 ^ 62\<rparr>]"

section \<open>Strings, drive letters and device paths\<close>

definition backslash :: char where
  "backslash = CHR 0x5C"

text \<open>
  \<^verbatim>\<open>std::to_string\<close> on an unsigned and on a signed integer: the decimal digits, with a
  leading minus sign for a negative value.
\<close>

fun to_string_nat :: "nat \<Rightarrow> string" where
  "to_string_nat n =
     (if n < 10 then [char_of (48 + n)]
      else to_string_nat (n div 10) @ [char_of (48 + n mod 10)])"

declare to_string_nat.simps [simp del]

definition to_string_int :: "int \<Rightarrow> string" where
  "to_string_int i = (if i < 0 then CHR ''-'' # to_string_nat (nat (- i)) else to_string_nat (nat i))"

text \<open>
  \<^verbatim>\<open>towupper\<close> and \<^verbatim>\<open>toupper\<close> applied to \<^verbatim>\<open>(unsigned char) drive_[0]\<close>, in the
  \<^verbatim>\<open>"C"\<close> locale a program starts in (the addon never calls \<^verbatim>\<open>setlocale\<close>): the letters
  \<open>a\<close>..\<open>z\<close> map to \<open>A\<close>..\<open>Z\<close>, every other character to itself.
\<close>

definition toupper_C :: "char \<Rightarrow> char" where
  "toupper_C c =
     (if 97 \<le> (of_char c :: nat) \<and> (of_char c :: nat) \<le> 122
      then char_of ((of_char c :: nat) - 32) else c)"

text \<open>
  The raw-volume path each worker builds from the first character of \<^verbatim>\<open>drive_\<close>
  (checked non-empty before). \<^verbatim>\<open>ScanUsnWorker::Execute\<close> starts from the literal
  \<^verbatim>\<open>L"\\.\\"\<close>, three characters: backslash, dot, backslash.
  \<^verbatim>\<open>FileRecordWorker::Execute\<close> and \<^verbatim>\<open>DataRunRecoveryWorker::Execute\<close> start from
  \<^verbatim>\<open>L"\\\\.\\"\<close>, four characters: backslash, backslash, dot, backslash.
\<close>

definition ScanUsnWorker_volumePath :: "string \<Rightarrow> string" where
  "ScanUsnWorker_volumePath drive =
     [backslash, CHR ''.'', backslash] @ [toupper_C (hd drive)] @ [CHR '':'']"

definition FileRecordWorker_volumePath :: "string \<Rightarrow> string" where
  "FileRecordWorker_volumePath drive =
     [backslash, backslash, CHR ''.'', backslash] @ [toupper_C (hd drive)] @ [CHR '':'']"

definition DataRunRecoveryWorker_volumePath :: "string \<Rightarrow> string" where
  "DataRunRecoveryWorker_volumePath drive =
     [backslash, backslash, CHR ''.'', backslash] @ [toupper_C (hd drive)] @ [CHR '':'']"

text \<open>
  The device path the specification gives for a drive letter \<open>X\<close>:
  two backslashes, a dot, a backslash, the uppercased letter and a colon.
\<close>

definition specified_volumePath :: "char \<Rightarrow> string" where
  "specified_volumePath x = [backslash, backslash, CHR ''.'', backslash, toupper_C x, CHR '':'']"

section \<open>USN journal scanner\<close>

text \<open>
  \<^verbatim>\<open>struct FileEntry { ULONGLONG parentRef; std::string name; bool isDirectory; }\<close> and
  \<^verbatim>\<open>struct DeletedRecord\<close>; the fields carry a prefix here because the structs of the
  source share their field names.
\<close>

record FileEntry =
  fe_parentRef :: ULONGLONG
  fe_name :: string
  fe_isDirectory :: bool

record DeletedRecord =
  d_fileRef :: ULONGLONG
  d_parentRef :: ULONGLONG
  d_name :: string
  d_isDirectory :: bool
  d_timestampMs :: int
  d_reason :: DWORD

type_synonym file_table = "ULONGLONG \<rightharpoonup> FileEntry"

subsection \<open>Path reconstruction\<close>

definition maxDepth :: nat where
  "maxDepth = 1024"

text \<open>
  The \<^verbatim>\<open>while (current != 0 && guard < maxDepth)\<close> loop of \<^verbatim>\<open>ScanUsnWorker::Execute\<close>:
  \<open>segments\<close> grows at its end (\<^verbatim>\<open>push_back\<close>).
\<close>

function walk_parents :: "file_table \<Rightarrow> ULONGLONG \<Rightarrow> nat \<Rightarrow> string list \<Rightarrow> string list" where
  "walk_parents fileTable current guard segments =
     (if current \<noteq> 0 \<and> guard < maxDepth then
        (case fileTable current of
           None \<Rightarrow> segments
         | Some e \<Rightarrow>
             (let segments' = (if fe_name e \<noteq> [] then segments @ [fe_name e] else segments)
              in if current = fe_parentRef e then segments'
                 else walk_parents fileTable (fe_parentRef e) (guard + 1) segments'))
      else segments)"
  by pat_completeness auto
termination
  by (relation "measure (\<lambda>(fileTable, current, guard, segments). maxDepth - guard)") auto

declare walk_parents.simps [simp del]

text \<open>
  The loop over \<^verbatim>\<open>segments.rbegin() .. segments.rend()\<close>: a backslash is pushed only when
  \<open>fullPath\<close> is non-empty and does not already end with one.
\<close>

fun append_segments :: "string \<Rightarrow> string list \<Rightarrow> string" where
  "append_segments fullPath [] = fullPath"
| "append_segments fullPath (s # rest) =
     append_segments
       ((if fullPath \<noteq> [] \<and> last fullPath \<noteq> backslash then fullPath @ [backslash] else fullPath) @ s)
       rest"

definition reconstruct_path :: "file_table \<Rightarrow> char \<Rightarrow> DeletedRecord \<Rightarrow> string" where
  "reconstruct_path fileTable upperDriveChar item =
     append_segments ([upperDriveChar] @ [CHR '':'', backslash])
       (rev (walk_parents fileTable (d_parentRef item) 0 [d_name item]))"

text \<open>
  Path reconstruction as the specification words it: start from the entry's own name,
  prepend each non-empty ancestor name found by repeated \<open>parentRef\<close> lookup, stop at FRN
  0, at a self-referential entry (after taking its name), at a missing lookup or when the
  depth allowance is used up; then join the segments with backslashes after the drive root.
\<close>

fun path_segments :: "file_table \<Rightarrow> nat \<Rightarrow> ULONGLONG \<Rightarrow> string list \<Rightarrow> string list" where
  "path_segments fileTable 0 current acc = acc"
| "path_segments fileTable (Suc depth) current acc =
     (if current = 0 then acc
      else case fileTable current of
             None \<Rightarrow> acc
           | Some e \<Rightarrow>
               (let acc' = (if fe_name e = [] then acc else fe_name e # acc)
                in if fe_parentRef e = current then acc'
                   else path_segments fileTable depth (fe_parentRef e) acc'))"

fun join_backslash :: "string list \<Rightarrow> string" where
  "join_backslash [] = []"
| "join_backslash [s] = s"
| "join_backslash (s # t # rest) = s @ [backslash] @ join_backslash (t # rest)"

definition specified_path :: "file_table \<Rightarrow> char \<Rightarrow> DeletedRecord \<Rightarrow> string" where
  "specified_path fileTable driveChar item =
     [toupper_C driveChar, CHR '':'', backslash]
     @ join_backslash (path_segments fileTable 1024 (d_parentRef item) [d_name item])"

text \<open>No name stored in the file table ends with a backslash.\<close>

definition no_trailing_backslash :: "file_table \<Rightarrow> bool" where
  "no_trailing_backslash fileTable =
     (\<forall>e \<in> ran fileTable. fe_name e \<noteq> [] \<longrightarrow> last (fe_name e) \<noteq> backslash)"

text \<open>
  Two small journals. The first is the path-reconstruction example of the specification:
  FRN 5 is the directory \<open>dir\<close> under FRN 6, whose name is empty and whose parent is 0;
  the deleted entry \<open>f.txt\<close> has parent 5. In the second, FRN 7 is a directory whose
  name \<open>a\\<close> ends with a backslash, and the deleted entry \<open>f\<close> has parent 7.
\<close>

definition example_table :: file_table where
  "example_table =
     [5 \<mapsto> \<lparr>fe_parentRef = 6, fe_name = ''dir'', fe_isDirectory = True\<rparr>,
      6 \<mapsto> \<lparr>fe_parentRef = 0, fe_name = [], fe_isDirectory = False\<rparr>]"

definition example_deleted :: DeletedRecord where
  "example_deleted =
     \<lparr>d_fileRef = 42, d_parentRef = 5, d_name = ''f.txt'', d_isDirectory = False,
      d_timestampMs = 0, d_reason = 0x200\<rparr>"

definition backslash_table :: file_table where
  "backslash_table =
     [7 \<mapsto> \<lparr>fe_parentRef = 0, fe_name = [CHR ''a'', backslash], fe_isDirectory = True\<rparr>]"

definition backslash_deleted :: DeletedRecord where
  "backslash_deleted =
     \<lparr>d_fileRef = 9, d_parentRef = 7, d_name = ''f'', d_isDirectory = False,
      d_timestampMs = 0, d_reason = 0x200\<rparr>"

subsection \<open>Journal enumeration\<close>

text \<open>
  Modelled from the spec: the layout of \<^verbatim>\<open>USN_RECORD_V2\<close>, whose fields spec section 3
  lists. The struct is declared in the Windows SDK header \<^verbatim>\<open>winioctl.h\<close>, which the
  source includes and the repository does not contain; the offsets are those of that
  declaration (64 bytes, the file name starting at offset 60), as are the constants
  \<^verbatim>\<open>FILE_ATTRIBUTE_DIRECTORY\<close>, \<^verbatim>\<open>USN_REASON_FILE_DELETE\<close> and \<^verbatim>\<open>ERROR_HANDLE_EOF\<close>.
\<close>

definition sizeof_USN_RECORD_V2 :: nat where
  "sizeof_USN_RECORD_V2 = 64"

definition usn_RecordLength :: "memory \<Rightarrow> nat \<Rightarrow> DWORD" where
  "usn_RecordLength mem r = rd32 mem r"

definition usn_FileReferenceNumber :: "memory \<Rightarrow> nat \<Rightarrow> ULONGLONG" where
  "usn_FileReferenceNumber mem r = rd64 mem (r + 8)"

definition usn_ParentFileReferenceNumber :: "memory \<Rightarrow> nat \<Rightarrow> ULONGLONG" where
  "usn_ParentFileReferenceNumber mem r = rd64 mem (r + 16)"

definition usn_TimeStamp :: "memory \<Rightarrow> nat \<Rightarrow> longlong" where
  "usn_TimeStamp mem r = rd64 mem (r + 32)"

definition usn_Reason :: "memory \<Rightarrow> nat \<Rightarrow> DWORD" where
  "usn_Reason mem r = rd32 mem (r + 40)"

definition usn_FileAttributes :: "memory \<Rightarrow> nat \<Rightarrow> DWORD" where
  "usn_FileAttributes mem r = rd32 mem (r + 52)"

definition usn_FileNameLength :: "memory \<Rightarrow> nat \<Rightarrow> WORD" where
  "usn_FileNameLength mem r = rd16 mem (r + 56)"

definition usn_FileName :: "memory \<Rightarrow> nat \<Rightarrow> nat \<Rightarrow> WORD list" where
  "usn_FileName mem r n = map (\<lambda>i. rd16 mem (r + 60 + 2 * i)) [0..<n]"

definition FILE_ATTRIBUTE_DIRECTORY :: DWORD where
  "FILE_ATTRIBUTE_DIRECTORY = 0x10"

definition USN_REASON_FILE_DELETE :: DWORD where
  "USN_REASON_FILE_DELETE = 0x200"

definition ERROR_HANDLE_EOF :: nat where
  "ERROR_HANDLE_EOF = 38"

text \<open>
  \<^verbatim>\<open>FileTimeToUnixMilliseconds\<close>: C++ integer division truncates towards zero. The
  quotient is below \<open>2 ^ 50\<close> in absolute value, so the conversion to \<^verbatim>\<open>double\<close> is exact
  and the result is kept as an integer.
\<close>

definition quotient_towards_zero :: "int \<Rightarrow> int \<Rightarrow> int" where
  "quotient_towards_zero x y =
     (if (x < 0) = (y < 0) then \<bar>x\<bar> div \<bar>y\<bar> else - (\<bar>x\<bar> div \<bar>y\<bar>))"

definition FileTimeToUnixMilliseconds :: "longlong \<Rightarrow> int" where
  "FileTimeToUnixMilliseconds time =
     quotient_towards_zero (sint time) 10000 - 11644473600000"

text \<open>
  The inner \<^verbatim>\<open>while (recordBytes > 0)\<close> loop over one batch. \<^verbatim>\<open>WideToUtf8\<close> wraps the
  Windows function \<^verbatim>\<open>WideCharToMultiByte\<close> and is a parameter.
\<close>

function scan_records ::
  "(WORD list \<Rightarrow> string) \<Rightarrow> memory \<Rightarrow> nat \<Rightarrow> nat \<Rightarrow> file_table \<Rightarrow> DeletedRecord list
     \<Rightarrow> file_table \<times> DeletedRecord list" where
  "scan_records WideToUtf8 buffer recordPtr recordBytes fileTable deleted =
     (if recordBytes > 0 then
        (if recordBytes < sizeof_USN_RECORD_V2 then (fileTable, deleted)
         else
           (let RecordLength = unat (usn_RecordLength buffer recordPtr)
            in if RecordLength = 0 \<or> RecordLength > recordBytes then (fileTable, deleted)
               else
                 (let fileRef = usn_FileReferenceNumber buffer recordPtr;
                      parentRef = usn_ParentFileReferenceNumber buffer recordPtr;
                      wName = usn_FileName buffer recordPtr
                                (unat (usn_FileNameLength buffer recordPtr) div 2);
                      name = WideToUtf8 wName;
                      isDirectory =
                        (usn_FileAttributes buffer recordPtr AND FILE_ATTRIBUTE_DIRECTORY \<noteq> 0);
                      fileTable' = fileTable(fileRef \<mapsto>
                        \<lparr>fe_parentRef = parentRef, fe_name = name, fe_isDirectory = isDirectory\<rparr>);
                      deleted' =
                        (if usn_Reason buffer recordPtr AND USN_REASON_FILE_DELETE \<noteq> 0
                         then deleted @
                           [\<lparr>d_fileRef = fileRef, d_parentRef = parentRef, d_name = name,
                             d_isDirectory = isDirectory,
                             d_timestampMs =
                               FileTimeToUnixMilliseconds (usn_TimeStamp buffer recordPtr),
                             d_reason = usn_Reason buffer recordPtr\<rparr>]
                         else deleted)
                  in scan_records WideToUtf8 buffer (recordPtr + RecordLength)
                       (recordBytes - RecordLength) fileTable' deleted')))
      else (fileTable, deleted))"
  by pat_completeness auto
termination
  by (relation "measure (\<lambda>(w, buffer, recordPtr, recordBytes, fileTable, deleted). recordBytes)") auto

declare scan_records.simps [simp del]

text \<open>
  One answer of \<^verbatim>\<open>DeviceIoControl(FSCTL_ENUM_USN_DATA)\<close>: failure with the
  \<^verbatim>\<open>GetLastError\<close> code, or success with \<open>bytesReturned\<close> and the buffer contents.
\<close>

datatype ioctl_result = IoctlFailed nat | IoctlOk nat memory

text \<open>
  The \<^verbatim>\<open>while (true)\<close> loop of \<^verbatim>\<open>ScanUsnWorker::Execute\<close>. The volume is a
  parameter: \<open>DeviceIoControl call start\<close> is its answer to the request number
  \<open>call\<close> carrying \<^verbatim>\<open>med.StartFileReferenceNumber = start\<close>. The loop may run forever, so
  it takes fuel, one unit per request, and gives \<open>None\<close> when the fuel is used up. Besides
  the loop's own state the model logs the start FRN of every request it issues,
  in order. The result is the log with either the error message or the file table and
  the deleted records.
\<close>

fun enumerate_usn ::
  "(WORD list \<Rightarrow> string) \<Rightarrow> (nat \<Rightarrow> ULONGLONG \<Rightarrow> ioctl_result) \<Rightarrow> nat \<Rightarrow> nat \<Rightarrow> ULONGLONG
     \<Rightarrow> file_table \<Rightarrow> DeletedRecord list \<Rightarrow> ULONGLONG list
     \<Rightarrow> (ULONGLONG list \<times> (string + file_table \<times> DeletedRecord list)) option" where
  "enumerate_usn WideToUtf8 DeviceIoControl 0 call start fileTable deleted requests = None"
| "enumerate_usn WideToUtf8 DeviceIoControl (Suc fuel) call start fileTable deleted requests =
     (case DeviceIoControl call start of
        IoctlFailed err \<Rightarrow>
          if err = ERROR_HANDLE_EOF
          then Some (requests @ [start], Inr (fileTable, deleted))
          else Some (requests @ [start],
                 Inl (''FSCTL_ENUM_USN_DATA failed with error '' @ to_string_nat err))
      | IoctlOk bytesReturned buffer \<Rightarrow>
          if bytesReturned \<le> 8
          then enumerate_usn WideToUtf8 DeviceIoControl fuel (call + 1) start fileTable deleted
                 (requests @ [start])
          else
            (case scan_records WideToUtf8 buffer 8 (bytesReturned - 8) fileTable deleted of
               (fileTable', deleted') \<Rightarrow>
                 enumerate_usn WideToUtf8 DeviceIoControl fuel (call + 1) (rd64 buffer 0)
                   fileTable' deleted' (requests @ [start])))"

text \<open>\<^verbatim>\<open>struct Result\<close> of \<^verbatim>\<open>ScanUsnWorker\<close>, and \<^verbatim>\<open>ScanUsnWorker::Execute\<close> itself.\<close>

record ScanResult =
  r_fileRef :: ULONGLONG
  r_parentRef :: ULONGLONG
  r_name :: string
  r_fullPath :: string
  r_isDirectory :: bool
  r_timestampMs :: int
  r_reason :: DWORD

definition ScanUsnWorker_Execute ::
  "(WORD list \<Rightarrow> string) \<Rightarrow> (string \<Rightarrow> nat option) \<Rightarrow> (nat \<Rightarrow> ULONGLONG \<Rightarrow> ioctl_result)
     \<Rightarrow> nat \<Rightarrow> string \<Rightarrow> (string + ScanResult list) option" where
  "ScanUsnWorker_Execute WideToUtf8 CreateFileW DeviceIoControl fuel drive =
     (if drive = [] then Some (Inl ''Drive letter is required'')
      else case CreateFileW (ScanUsnWorker_volumePath drive) of
             Some err \<Rightarrow> Some (Inl (''CreateFile failed with error '' @ to_string_nat err))
           | None \<Rightarrow>
               (case enumerate_usn WideToUtf8 DeviceIoControl fuel 0 0 Map.empty [] [] of
                  None \<Rightarrow> None
                | Some (requests, Inl msg) \<Rightarrow> Some (Inl msg)
                | Some (requests, Inr (fileTable, deleted)) \<Rightarrow>
                    Some (Inr (map (\<lambda>item.
                      \<lparr>r_fileRef = d_fileRef item, r_parentRef = d_parentRef item,
                       r_name = d_name item,
                       r_fullPath = reconstruct_path fileTable (toupper_C (hd drive)) item,
                       r_isDirectory = d_isDirectory item, r_timestampMs = d_timestampMs item,
                       r_reason = d_reason item\<rparr>) deleted))))"

text \<open>
  Two volumes that answer the first request (start FRN 0) with an empty batch: 8 bytes
  returned, holding the next start FRN 5. The first one answers every later request with
  \<^verbatim>\<open>ERROR_HANDLE_EOF\<close>. The second one answers by the start FRN alone: the empty batch
  for start 0, end of file for any other start.
\<close>

definition empty_batch_buffer :: memory where
  "empty_batch_buffer = bytes_mem [5, 0, 0, 0, 0, 0, 0, 0]"

definition empty_batch_then_eof :: "nat \<Rightarrow> ULONGLONG \<Rightarrow> ioctl_result" where
  "empty_batch_then_eof call start =
     (if call = 0 then IoctlOk 8 empty_batch_buffer else IoctlFailed ERROR_HANDLE_EOF)"

definition empty_batch_at_zero :: "nat \<Rightarrow> ULONGLONG \<Rightarrow> ioctl_result" where
  "empty_batch_at_zero call start =
     (if start = 0 then IoctlOk 8 empty_batch_buffer else IoctlFailed ERROR_HANDLE_EOF)"

section \<open>MFT record parser\<close>

definition AttributeTypeToString :: "DWORD \<Rightarrow> string" where
  "AttributeTypeToString t =
     (if t = 0x10 then ''StandardInformation''
      else if t = 0x20 then ''AttributeList''
      else if t = 0x30 then ''FileName''
      else if t = 0x40 then ''ObjectId''
      else if t = 0x50 then ''SecurityDescriptor''
      else if t = 0x60 then ''VolumeName''
      else if t = 0x70 then ''VolumeInformation''
      else if t = 0x80 then ''Data''
      else if t = 0x90 then ''IndexRoot''
      else if t = 0xA0 then ''IndexAllocation''
      else if t = 0xB0 then ''Bitmap''
      else if t = 0xC0 then ''ReparsePoint''
      else if t = 0xD0 then ''EAInformation''
      else if t = 0xE0 then ''EA''
      else if t = 0xF0 then ''PropertySet''
      else if t = 0x100 then ''LoggedUtilityStream''
      else ''Unknown'')"

definition ExtractAttributeName :: "(WORD list \<Rightarrow> string) \<Rightarrow> memory \<Rightarrow> nat \<Rightarrow> string" where
  "ExtractAttributeName WideToUtf8 mem header =
     (if attr_NameLength mem header = 0 then []
      else WideToUtf8
             (map (\<lambda>i. rd16 mem (header + unat (attr_NameOffset mem header) + 2 * i))
                [0..<unat (attr_NameLength mem header)]))"

subsection \<open>Base64\<close>

definition alphabet :: string where
  "alphabet = ''ABCDEFGHIJKLMNOPQRSTUVWXYZabcdefghijklmnopqrstuvwxyz0123456789+/''"

definition alphabet_at :: "DWORD \<Rightarrow> char" where
  "alphabet_at x = alphabet ! unat (x AND 0x3F)"

text \<open>
  \<^verbatim>\<open>Base64Encode\<close>: whole triples first (\<^verbatim>\<open>while (i + 2 < length)\<close>), then the one or
  two bytes left over, padded with \<open>=\<close>.
\<close>

fun Base64Encode :: "byte list \<Rightarrow> string" where
  "Base64Encode (a # b # c # rest) =
     (let triple = push_bit 16 (ucast a :: DWORD) OR push_bit 8 (ucast b) OR ucast c
      in [alphabet_at (drop_bit 18 triple), alphabet_at (drop_bit 12 triple),
          alphabet_at (drop_bit 6 triple), alphabet_at triple] @ Base64Encode rest)"
| "Base64Encode [a, b] =
     (let triple = push_bit 16 (ucast a :: DWORD) OR push_bit 8 (ucast b)
      in [alphabet_at (drop_bit 18 triple), alphabet_at (drop_bit 12 triple),
          alphabet_at (drop_bit 6 triple), CHR ''=''])"
| "Base64Encode [a] =
     (let triple = push_bit 16 (ucast a :: DWORD)
      in [alphabet_at (drop_bit 18 triple), alphabet_at (drop_bit 12 triple),
          CHR ''='', CHR ''=''])"
| "Base64Encode [] = []"

subsection \<open>ParseFileRecord\<close>

text \<open>
  \<^verbatim>\<open>struct AttributeInfo\<close> and \<^verbatim>\<open>struct FileRecordDetails\<close>; the fields of
  \<^verbatim>\<open>AttributeInfo\<close> carry the prefix \<open>a_\<close>.
\<close>

record AttributeInfo =
  a_type :: DWORD
  a_typeName :: string
  a_nonResident :: bool
  a_name :: string
  a_dataSize :: ULONGLONG
  a_allocatedSize :: ULONGLONG
  a_runs :: "DataRunSegment list"
  a_residentData :: "byte list"

record FileRecordDetails =
  inUse :: bool
  isDirectory :: bool
  baseReference :: ULONGLONG
  hardLinkCount :: DWORD
  flags :: DWORD
  attributes :: "AttributeInfo list"
  bytesPerSector :: DWORD
  sectorsPerCluster :: DWORD
  clusterSize :: ULONGLONG

text \<open>
  The body of the attribute loop: \<open>info\<close> is value-initialised, so the list that the
  taken branch does not fill stays empty. \<^verbatim>\<open>valueOffset + valueLength\<close> is a sum of two
  \<^verbatim>\<open>DWORD\<close>s and wraps.
\<close>

definition parse_attribute :: "(WORD list \<Rightarrow> string) \<Rightarrow> memory \<Rightarrow> nat \<Rightarrow> AttributeInfo" where
  "parse_attribute WideToUtf8 mem attr =
     (if attr_NonResident mem attr \<noteq> 0 then
        \<lparr>a_type = attr_Type mem attr,
         a_typeName = AttributeTypeToString (attr_Type mem attr),
         a_nonResident = True,
         a_name = ExtractAttributeName WideToUtf8 mem attr,
         a_dataSize = NonResidentData_DataSize mem attr,
         a_allocatedSize = NonResidentData_AllocatedSize mem attr,
         a_runs = ParseRunList mem attr,
         a_residentData = []\<rparr>
      else
        (let valueOffset = (ucast (Resident_ValueOffset mem attr) :: DWORD);
             valueLength = Resident_ValueLength mem attr
         in \<lparr>a_type = attr_Type mem attr,
             a_typeName = AttributeTypeToString (attr_Type mem attr),
             a_nonResident = False,
             a_name = ExtractAttributeName WideToUtf8 mem attr,
             a_dataSize = ucast valueLength,
             a_allocatedSize = ucast valueLength,
             a_runs = [],
             a_residentData =
               (if valueOffset + valueLength \<le> attr_Length mem attr \<and> valueLength > 0
                then bytes_at mem (attr + unat valueOffset) (unat valueLength)
                else [])\<rparr>))"

function ParseFileRecord_loop ::
  "(WORD list \<Rightarrow> string) \<Rightarrow> memory \<Rightarrow> nat \<Rightarrow> nat \<Rightarrow> AttributeInfo list" where
  "ParseFileRecord_loop WideToUtf8 mem attrPtr endp =
     (if attrPtr + sizeof_AttributeRecordHeader \<le> endp then
        (if attr_Type mem attrPtr = 0xFFFFFFFF \<or> attr_Length mem attrPtr = 0 then []
         else if attrPtr + unat (attr_Length mem attrPtr) > endp then []
         else parse_attribute WideToUtf8 mem attrPtr
              # ParseFileRecord_loop WideToUtf8 mem (attrPtr + unat (attr_Length mem attrPtr)) endp)
      else [])"
  by pat_completeness auto
termination
proof (relation "measure (\<lambda>(w, mem, attrPtr, endp). endp - attrPtr)", goal_cases)
  case 1
  show ?case by simp
next
  case (2 w mem attrPtr endp)
  have "0 < unat (attr_Length mem attrPtr)"
    using 2(2) by (simp add: unat_gt_0)
  with 2 show ?case by (simp add: sizeof_AttributeRecordHeader_def)
qed

declare ParseFileRecord_loop.simps [simp del]

text \<open>
  \<^verbatim>\<open>bool ParseFileRecord(const BYTE *buffer, DWORD length, FileRecordDetails &details)\<close>:
  \<open>None\<close> stands for \<^verbatim>\<open>false\<close>. The geometry fields are set to 0 here and filled in
  by the caller.
\<close>

definition ParseFileRecord ::
  "(WORD list \<Rightarrow> string) \<Rightarrow> memory \<Rightarrow> nat \<Rightarrow> DWORD \<Rightarrow> FileRecordDetails option" where
  "ParseFileRecord WideToUtf8 mem buffer len =
     (if unat len < sizeof_FileRecordHeader then None
      else if hdr_Magic mem buffer \<noteq> 0x454C4946 then None
      else Some
        \<lparr>inUse = (hdr_Flags mem buffer AND 0x0001 \<noteq> 0),
         isDirectory = (hdr_Flags mem buffer AND 0x0002 \<noteq> 0),
         baseReference = hdr_BaseFileRecord mem buffer,
         hardLinkCount = ucast (hdr_HardLinkCount mem buffer),
         flags = ucast (hdr_Flags mem buffer),
         attributes =
           ParseFileRecord_loop WideToUtf8 mem
             (buffer + unat (hdr_FirstAttributeOffset mem buffer)) (buffer + unat len),
         bytesPerSector = 0,
         sectorsPerCluster = 0,
         clusterSize = 0\<rparr>)"

subsection \<open>FileRecordWorker\<close>

text \<open>
  \<^verbatim>\<open>FileRecordWorker::Execute\<close>. The operating system is a parameter:
  \<open>GetDiskFreeSpaceW\<close> gives the sectors per cluster and bytes per sector left in the
  two variables (0 when the call fails; its return value is ignored), \<open>CreateFileW\<close>
  gives \<open>Some\<close> error code when the volume cannot be opened, and \<open>DeviceIoControl\<close>
  answers \<^verbatim>\<open>FSCTL_GET_NTFS_FILE_RECORD\<close> with an error code or with \<open>bytesReturned\<close>
  and the output buffer. In \<^verbatim>\<open>NtfsFileRecordOutputBuffer\<close> (packed, 13 bytes) the record
  length is at offset 8 and the record at offset 12.
\<close>

definition sizeof_NtfsFileRecordOutputBuffer :: nat where
  "sizeof_NtfsFileRecordOutputBuffer = 13"

definition FileRecordWorker_Execute ::
  "(WORD list \<Rightarrow> string) \<Rightarrow> (string \<Rightarrow> nat option) \<Rightarrow> (string \<Rightarrow> DWORD \<times> DWORD)
     \<Rightarrow> (ULONGLONG \<Rightarrow> nat + nat \<times> memory) \<Rightarrow> string \<Rightarrow> ULONGLONG
     \<Rightarrow> string + FileRecordDetails" where
  "FileRecordWorker_Execute WideToUtf8 CreateFileW GetDiskFreeSpaceW DeviceIoControl drive fileRef =
     (if drive = [] then Inl ''Drive letter is required''
      else
        (case GetDiskFreeSpaceW ([toupper_C (hd drive)] @ [CHR '':'', backslash]) of
           (sectorsPerCluster', bytesPerSector') \<Rightarrow>
             (case CreateFileW (FileRecordWorker_volumePath drive) of
                Some err \<Rightarrow> Inl (''CreateFile failed with error '' @ to_string_nat err)
              | None \<Rightarrow>
                  (case DeviceIoControl fileRef of
                     Inl err \<Rightarrow>
                       Inl (''FSCTL_GET_NTFS_FILE_RECORD failed with error '' @ to_string_nat err)
                   | Inr (bytesReturned, buffer) \<Rightarrow>
                       if bytesReturned < sizeof_NtfsFileRecordOutputBuffer
                       then Inl ''File record response too small''
                       else
                         (case ParseFileRecord WideToUtf8 buffer 12 (rd32 buffer 8) of
                            None \<Rightarrow> Inl ''Failed to parse file record''
                          | Some details \<Rightarrow>
                              Inr (details
                                \<lparr>bytesPerSector := bytesPerSector',
                                 sectorsPerCluster := sectorsPerCluster',
                                 clusterSize := ucast bytesPerSector' * ucast sectorsPerCluster'\<rparr>))))))"

subsection \<open>The record object handed to the host\<close>

text \<open>
  Values of the host runtime. A number is a real (NaN and the infinities are not
  represented); an object is the list of its properties in the order they were set.
\<close>

datatype jsvalue =
    JSUndefined
  | JSNull
  | JSBoolean bool
  | JSNumber real
  | JSString string
  | JSArray "jsvalue list"
  | JSObject "(string \<times> jsvalue) list"
  | JSFunction

definition has_field :: "string \<Rightarrow> (string \<times> jsvalue) list \<Rightarrow> bool" where
  "has_field k props = (map_of props k \<noteq> None)"

definition run_object :: "DataRunSegment \<Rightarrow> jsvalue" where
  "run_object run =
     JSObject
       [(''vcn'', JSString (to_string_int (sint (vcnStart run)))),
        (''lcn'', JSString (to_string_int (sint (lcn run)))),
        (''length'', JSString (to_string_int (sint (length_run run)))),
        (''sparse'', JSBoolean (sparse run))]"

text \<open>The body of the attribute loop of \<^verbatim>\<open>FileRecordWorker::OnOK\<close>.\<close>

definition attribute_object :: "AttributeInfo \<Rightarrow> (string \<times> jsvalue) list" where
  "attribute_object attr =
     [(''type'', JSNumber (real (unat (a_type attr)))),
      (''typeName'', JSString (a_typeName attr)),
      (''nonResident'', JSBoolean (a_nonResident attr))]
     @ (if a_name attr \<noteq> [] then [(''name'', JSString (a_name attr))] else [])
     @ [(''dataSize'', JSString (to_string_nat (unat (a_dataSize attr)))),
        (''allocatedSize'', JSString (to_string_nat (unat (a_allocatedSize attr))))]
     @ (if a_runs attr \<noteq> [] then [(''runs'', JSArray (map run_object (a_runs attr)))]
        else if a_residentData attr \<noteq> []
        then [(''residentDataBase64'', JSString (Base64Encode (a_residentData attr)))]
        else [])"

definition FileRecordWorker_OnOK :: "FileRecordDetails \<Rightarrow> jsvalue" where
  "FileRecordWorker_OnOK details =
     JSObject
       [(''inUse'', JSBoolean (inUse details)),
        (''isDirectory'', JSBoolean (isDirectory details)),
        (''baseReference'', JSString (to_string_nat (unat (baseReference details)))),
        (''hardLinkCount'', JSNumber (real (unat (hardLinkCount details)))),
        (''flags'', JSNumber (real (unat (flags details)))),
        (''bytesPerSector'', JSNumber (real (unat (bytesPerSector details)))),
        (''sectorsPerCluster'', JSNumber (real (unat (sectorsPerCluster details)))),
        (''clusterSize'', JSString (to_string_nat (unat (clusterSize details)))),
        (''attributes'', JSArray (map (\<lambda>attr. JSObject (attribute_object attr))
                                      (attributes details)))]"

text \<open>
  Two answers of the file-record control, each 132 or 212 bytes with the record at offset
  12. The first record has one non-resident \<open>Data\<close> attribute (at offset 60 of the
  buffer, length 72) whose run list starts with the terminator. The second has the
  non-resident attribute of scenario 2 (at 60, length 80, run list
  \<open>21 03 E8 03 | 01 02 | 00\<close> at 124) followed by a resident \<open>FileName\<close> attribute (at 140,
  length 72) with the 4-byte payload \<open>abcd\<close> at value offset 24.
\<close>

definition empty_runs_response :: memory where
  "empty_runs_response =
     (\<lambda>i. if i = 8 then 120
          else if i = 12 then 0x46 else if i = 13 then 0x49
          else if i = 14 then 0x4C else if i = 15 then 0x45
          else if i = 32 then 48
          else if i = 60 then 0x80 else if i = 64 then 72 else if i = 68 then 1
          else if i = 92 then 64
          else 0)"

definition two_attribute_response :: memory where
  "two_attribute_response =
     (\<lambda>i. if i = 8 then 200
          else if i = 12 then 0x46 else if i = 13 then 0x49
          else if i = 14 then 0x4C else if i = 15 then 0x45
          else if i = 32 then 48
          else if i = 60 then 0x80 else if i = 64 then 80 else if i = 68 then 1
          else if i = 92 then 64
          else if i = 124 then 0x21 else if i = 125 then 0x03 else if i = 126 then 0xE8
          else if i = 127 then 0x03 else if i = 128 then 0x01 else if i = 129 then 0x02
          else if i = 140 then 0x30 else if i = 144 then 72
          else if i = 156 then 4 else if i = 160 then 24
          else if i = 164 then 0x61 else if i = 165 then 0x62
          else if i = 166 then 0x63 else if i = 167 then 0x64
          else 0)"

section \<open>Host bridge: integer parsing\<close>

text \<open>
  \<^verbatim>\<open>std::stoull(input, &idx, 10)\<close> and \<^verbatim>\<open>std::stoll\<close> are the C++ standard library's
  wrappers of \<^verbatim>\<open>strtoull\<close> and \<^verbatim>\<open>strtoll\<close>: leading white space (\<^verbatim>\<open>isspace\<close>) is
  skipped, one sign character \<open>+\<close> or \<open>-\<close> is accepted, then the longest run of decimal
  digits is converted; \<open>idx\<close> is the number of characters consumed. No digit at all
  raises \<^verbatim>\<open>std::invalid_argument\<close>, a value out of range raises \<^verbatim>\<open>std::out_of_range\<close>
  (both are \<open>None\<close> here). For \<^verbatim>\<open>strtoull\<close> a minus sign negates the value in the
  unsigned type and is no range error. A NUL character stops the scan like any other
  character that is not a digit.
\<close>

definition isspace_C :: "char \<Rightarrow> bool" where
  "isspace_C c = ((of_char c :: nat) = 32 \<or> (9 \<le> (of_char c :: nat) \<and> (of_char c :: nat) \<le> 13))"

definition isdigit_C :: "char \<Rightarrow> bool" where
  "isdigit_C c = (48 \<le> (of_char c :: nat) \<and> (of_char c :: nat) \<le> 57)"

definition decimal_value :: "string \<Rightarrow> nat" where
  "decimal_value ds = foldl (\<lambda>acc c. 10 * acc + ((of_char c :: nat) - 48)) 0 ds"

text \<open>The scan shared by both conversions: is there a minus sign, the digits, and \<open>idx\<close>.\<close>

definition scan_integer :: "string \<Rightarrow> (bool \<times> string \<times> nat) option" where
  "scan_integer s =
     (let ws = takeWhile isspace_C s;
          r = dropWhile isspace_C s;
          has_sign = (r \<noteq> [] \<and> (hd r = CHR ''-'' \<or> hd r = CHR ''+''));
          negative = (r \<noteq> [] \<and> hd r = CHR ''-'');
          ds = takeWhile isdigit_C (if has_sign then tl r else r)
      in if ds = [] then None
         else Some (negative, ds, length ws + (if has_sign then 1 else 0) + length ds))"

definition stoull :: "string \<Rightarrow> (ULONGLONG \<times> nat) option" where
  "stoull s =
     (case scan_integer s of
        None \<Rightarrow> None
      | Some (negative, ds, idx) \<Rightarrow>
          if decimal_value ds > 2 ^ 64 - 1 then None
          else Some (if negative then - word_of_nat (decimal_value ds)
                     else word_of_nat (decimal_value ds), idx))"

definition stoll :: "string \<Rightarrow> (longlong \<times> nat) option" where
  "stoll s =
     (case scan_integer s of
        None \<Rightarrow> None
      | Some (negative, ds, idx) \<Rightarrow>
          if (if negative then decimal_value ds > 2 ^ 63 else decimal_value ds > 2 ^ 63 - 1)
          then None
          else Some (if negative then - word_of_nat (decimal_value ds)
                     else word_of_nat (decimal_value ds), idx))"

text \<open>
  \<^verbatim>\<open>bool TryParseUnsigned(const std::string &input, ULONGLONG &output)\<close> and
  \<^verbatim>\<open>TryParseSigned\<close>: the result is the returned flag and the content of \<open>output\<close>
  afterwards (it is assigned before the length check, and left alone when the conversion
  throws).
\<close>

definition TryParseUnsigned :: "string \<Rightarrow> ULONGLONG \<Rightarrow> bool \<times> ULONGLONG" where
  "TryParseUnsigned input output =
     (case stoull input of
        None \<Rightarrow> (False, output)
      | Some (v, idx) \<Rightarrow> (idx = length input, v))"

definition TryParseSigned :: "string \<Rightarrow> longlong \<Rightarrow> bool \<times> longlong" where
  "TryParseSigned input output =
     (case stoll input of
        None \<Rightarrow> (False, output)
      | Some (v, idx) \<Rightarrow> (idx = length input, v))"

text \<open>
  What the specification calls a decimal string: a non-empty run of decimal digits. And
  the form the parser of the source accepts when there is no minus sign: optional white
  space, an optional \<open>+\<close>, then a non-empty run of digits up to the end of the string,
  with a value below \<open>2 ^ 64\<close>.
\<close>

definition is_decimal :: "string \<Rightarrow> bool" where
  "is_decimal s = (s \<noteq> [] \<and> list_all isdigit_C s)"

definition has_minus_sign :: "string \<Rightarrow> bool" where
  "has_minus_sign s = (dropWhile isspace_C s \<noteq> [] \<and> hd (dropWhile isspace_C s) = CHR ''-'')"

definition lenient_decimal :: "string \<Rightarrow> bool" where
  "lenient_decimal s =
     (let r = dropWhile isspace_C s;
          ds = (if r \<noteq> [] \<and> hd r = CHR ''+'' then tl r else r)
      in is_decimal ds \<and> decimal_value ds < 2 ^ 64)"

section \<open>Data-run recovery writer\<close>

subsection \<open>The operating system\<close>

text \<open>
  What the worker sees of Windows. \<open>volume_open\<close> and \<open>output_open\<close> are the two
  \<^verbatim>\<open>CreateFileW\<close> calls (\<open>Some\<close> error code on failure); \<open>volume_image\<close> is the content
  of the volume; \<open>seek_error\<close> is \<^verbatim>\<open>SetFilePointerEx\<close> on the volume at a non-negative
  offset; \<open>read_count pos n\<close> is \<^verbatim>\<open>ReadFile\<close> of \<open>n\<close> bytes at position \<open>pos\<close>: an error
  code or the number of bytes delivered (a read may be short); \<open>write_count size n\<close> is
  \<^verbatim>\<open>WriteFile\<close> of \<open>n\<close> bytes to the output file currently holding \<open>size\<close> bytes: an
  error code or the number of bytes written; \<open>stale_error\<close> is what \<^verbatim>\<open>GetLastError\<close>
  returns when the last call did not fail; \<open>Utf8ToWide\<close> wraps \<^verbatim>\<open>MultiByteToWideChar\<close>.
  Allocation of the two buffers is taken to succeed, and \<^verbatim>\<open>size_t\<close> to be 64 bits wide.
\<close>

record recovery_env =
  volume_open :: "string \<Rightarrow> nat option"
  output_open :: "WORD list \<Rightarrow> nat option"
  volume_image :: "byte list"
  seek_error :: "int \<Rightarrow> nat option"
  read_count :: "nat \<Rightarrow> nat \<Rightarrow> nat + nat"
  write_count :: "nat \<Rightarrow> nat \<Rightarrow> nat + nat"
  stale_error :: nat
  Utf8ToWide :: "string \<Rightarrow> WORD list"

definition ERROR_NEGATIVE_SEEK :: nat where
  "ERROR_NEGATIVE_SEEK = 131"

definition SetFilePointerEx :: "recovery_env \<Rightarrow> int \<Rightarrow> nat option" where
  "SetFilePointerEx env distance =
     (if distance < 0 then Some ERROR_NEGATIVE_SEEK else seek_error env distance)"

text \<open>\<open>ReadFile\<close> gives the bytes read; the file pointer advances by their number.\<close>

definition ReadFile :: "recovery_env \<Rightarrow> nat \<Rightarrow> nat \<Rightarrow> nat + byte list" where
  "ReadFile env pos n =
     (case read_count env pos n of
        Inl err \<Rightarrow> Inl err
      | Inr k \<Rightarrow> Inr (take (min k n) (drop pos (volume_image env))))"

text \<open>\<open>WriteFile\<close> gives \<open>written\<close>; the file grows by the first \<open>written\<close> bytes of the data.\<close>

definition WriteFile :: "recovery_env \<Rightarrow> byte list \<Rightarrow> nat \<Rightarrow> nat + nat" where
  "WriteFile env out n =
     (case write_count env (length out) n of
        Inl err \<Rightarrow> Inl err
      | Inr w \<Rightarrow> Inr (min w n))"

subsection \<open>DataRunRecoveryWorker::Execute\<close>

text \<open>
  The three inner loops. Each may run forever (a write of 0 bytes makes no progress), so
  each takes fuel, one unit per iteration, and gives \<open>None\<close> when it is used up. A loop
  gives the error message, if any, and the content of the output file. The chunk size is
  cast to \<^verbatim>\<open>DWORD\<close>, hence \<open>mod 2 ^ 32\<close>. The counters \<open>produced\<close>, \<open>processed\<close> and
  \<open>remaining\<close> stay below \<open>2 ^ 64\<close> and are natural numbers here.
\<close>

fun sparse_loop ::
  "recovery_env \<Rightarrow> nat \<Rightarrow> nat \<Rightarrow> nat \<Rightarrow> nat \<Rightarrow> byte list \<Rightarrow> (string option \<times> byte list) option" where
  "sparse_loop env 0 bufferSize bytesToCopy produced out =
     (if produced < bytesToCopy then None else Some (None, out))"
| "sparse_loop env (Suc fuel) bufferSize bytesToCopy produced out =
     (if produced < bytesToCopy then
        (let chunk = min (bytesToCopy - produced) bufferSize
         in case WriteFile env out (chunk mod 2 ^ 32) of
              Inl err \<Rightarrow>
                Some (Some (''WriteFile (sparse) failed with error '' @ to_string_nat err), out)
            | Inr written \<Rightarrow>
                sparse_loop env fuel bufferSize bytesToCopy (produced + written)
                  (out @ take written (replicate bufferSize 0)))
      else Some (None, out))"

fun copy_loop ::
  "recovery_env \<Rightarrow> nat \<Rightarrow> nat \<Rightarrow> nat \<Rightarrow> nat \<Rightarrow> nat \<Rightarrow> byte list
     \<Rightarrow> (string option \<times> byte list) option" where
  "copy_loop env 0 bufferSize bytesToCopy processed pos out =
     (if processed < bytesToCopy then None else Some (None, out))"
| "copy_loop env (Suc fuel) bufferSize bytesToCopy processed pos out =
     (if processed < bytesToCopy then
        (let chunk = min (bytesToCopy - processed) bufferSize
         in case ReadFile env pos (chunk mod 2 ^ 32) of
              Inl err \<Rightarrow> Some (Some (''ReadFile failed with error '' @ to_string_nat err), out)
            | Inr bytes \<Rightarrow>
                if length bytes = 0
                then Some (Some ''Unexpected end of volume data while reading run'', out)
                else
                  (case WriteFile env out (length bytes) of
                     Inl err \<Rightarrow>
                       Some (Some (''WriteFile failed with error '' @ to_string_nat err), out)
                   | Inr written \<Rightarrow>
                       if written \<noteq> length bytes
                       then Some (Some (''WriteFile failed with error ''
                                         @ to_string_nat (stale_error env)),
                                  out @ take written bytes)
                       else copy_loop env fuel bufferSize bytesToCopy
                              (processed + length bytes) (pos + length bytes) (out @ bytes)))
      else Some (None, out))"

fun padding_loop ::
  "recovery_env \<Rightarrow> nat \<Rightarrow> nat \<Rightarrow> nat \<Rightarrow> byte list \<Rightarrow> (string option \<times> byte list) option" where
  "padding_loop env 0 bufferSize remaining out =
     (if remaining > 0 then None else Some (None, out))"
| "padding_loop env (Suc fuel) bufferSize remaining out =
     (if remaining > 0 then
        (let chunk = min remaining bufferSize
         in case WriteFile env out (chunk mod 2 ^ 32) of
              Inl err \<Rightarrow>
                Some (Some (''WriteFile (padding) failed with error '' @ to_string_nat err), out)
            | Inr written \<Rightarrow>
                padding_loop env fuel bufferSize (remaining - written)
                  (out @ take written (replicate bufferSize 0)))
      else Some (None, out))"

text \<open>
  The \<^verbatim>\<open>for (const auto &run : runs_)\<close> loop: it gives the error message, if any, what
  is left of \<open>remaining\<close>, and the output so far. \<open>runBytesTotal\<close> is a product of two
  \<^verbatim>\<open>ULONGLONG\<close>s and \<open>absoluteOffset\<close> a product of two \<^verbatim>\<open>LONGLONG\<close>s: both wrap.
\<close>

fun runs_loop ::
  "recovery_env \<Rightarrow> nat \<Rightarrow> ULONGLONG \<Rightarrow> nat \<Rightarrow> DataRunSegment list \<Rightarrow> nat \<Rightarrow> byte list
     \<Rightarrow> (string option \<times> nat \<times> byte list) option" where
  "runs_loop env fuel clusterSize' bufferSize [] remaining out = Some (None, remaining, out)"
| "runs_loop env fuel clusterSize' bufferSize (run # rest) remaining out =
     (if remaining = 0 then Some (None, remaining, out)
      else if sint (length_run run) \<le> 0
      then runs_loop env fuel clusterSize' bufferSize rest remaining out
      else
        (let runBytesTotal = unat (length_run run * clusterSize');
             bytesToCopy = min runBytesTotal remaining
         in if sparse run \<or> sint (lcn run) \<le> 0 then
              (case sparse_loop env fuel bufferSize bytesToCopy 0 out of
                 None \<Rightarrow> None
               | Some (Some err, out') \<Rightarrow> Some (Some err, remaining, out')
               | Some (None, out') \<Rightarrow>
                   runs_loop env fuel clusterSize' bufferSize rest (remaining - bytesToCopy) out')
            else
              (let absoluteOffset = sint (lcn run * clusterSize')
               in case SetFilePointerEx env absoluteOffset of
                    Some err \<Rightarrow>
                      Some (Some (''SetFilePointerEx failed with error '' @ to_string_nat err),
                            remaining, out)
                  | None \<Rightarrow>
                      (case copy_loop env fuel bufferSize bytesToCopy 0 (nat absoluteOffset) out of
                         None \<Rightarrow> None
                       | Some (Some err, out') \<Rightarrow> Some (Some err, remaining, out')
                       | Some (None, out') \<Rightarrow>
                           runs_loop env fuel clusterSize' bufferSize rest
                             (remaining - bytesToCopy) out'))))"

text \<open>
  \<^verbatim>\<open>DataRunRecoveryWorker::Execute\<close>: \<open>None\<close> when a loop never ends; otherwise the error
  message (\<open>None\<close> on success) and the content of the output file (\<open>None\<close> when it was
  never created; it is created empty).
\<close>

definition DataRunRecoveryWorker_Execute ::
  "recovery_env \<Rightarrow> nat \<Rightarrow> string \<Rightarrow> DataRunSegment list \<Rightarrow> ULONGLONG \<Rightarrow> ULONGLONG \<Rightarrow> WORD list
     \<Rightarrow> (string option \<times> byte list option) option" where
  "DataRunRecoveryWorker_Execute env fuel drive runs clusterSize' fileSize outputPath =
     (if drive = [] then Some (Some ''Drive letter is required'', None)
      else if clusterSize' = 0 then Some (Some ''Cluster size is required'', None)
      else if fileSize = 0 then Some (Some ''Target file size is zero'', None)
      else if outputPath = [] then Some (Some ''Output path is required'', None)
      else
        (case volume_open env (DataRunRecoveryWorker_volumePath drive) of
           Some err \<Rightarrow>
             Some (Some (''CreateFile (volume) failed with error '' @ to_string_nat err), None)
         | None \<Rightarrow>
             (case output_open env outputPath of
                Some err \<Rightarrow>
                  Some (Some (''CreateFile (output) failed with error '' @ to_string_nat err), None)
              | None \<Rightarrow>
                  (let bufferSize = unat (clusterSize' * 16)
                   in case runs_loop env fuel clusterSize' bufferSize runs (unat fileSize) [] of
                        None \<Rightarrow> None
                      | Some (Some err, remaining, out) \<Rightarrow> Some (Some err, Some out)
                      | Some (None, remaining, out) \<Rightarrow>
                          (case padding_loop env fuel bufferSize remaining out of
                             None \<Rightarrow> None
                           | Some (err, out') \<Rightarrow> Some (err, Some out'))))))"

subsection \<open>The content the specification describes\<close>

text \<open>
  In run order over runs with length above 0 and while bytes remain:
  \<open>min (length * clusterSize) remaining\<close> bytes per run, zero bytes when the run is sparse
  or its \<open>lcn\<close> is not positive and otherwise the volume bytes from byte offset
  \<open>lcn * clusterSize\<close>; then zero bytes up to \<open>fileSize\<close>. The products are those of the
  integers.
\<close>

fun specified_content :: "byte list \<Rightarrow> nat \<Rightarrow> DataRunSegment list \<Rightarrow> nat \<Rightarrow> byte list" where
  "specified_content volume clusterSize' [] remaining = replicate remaining 0"
| "specified_content volume clusterSize' (run # rest) remaining =
     (if remaining = 0 then []
      else if sint (length_run run) \<le> 0 then specified_content volume clusterSize' rest remaining
      else
        (let toCopy = min (nat (sint (length_run run)) * clusterSize') remaining
         in (if sparse run \<or> sint (lcn run) \<le> 0 then replicate toCopy 0
             else take toCopy (drop (nat (sint (lcn run)) * clusterSize') volume))
            @ specified_content volume clusterSize' rest (remaining - toCopy)))"

text \<open>
  No product overflows: for each run with a positive length, \<open>length * clusterSize\<close> is
  below \<open>2 ^ 64\<close>, and for each such run that is read from the volume,
  \<open>lcn * clusterSize\<close> is below \<open>2 ^ 63\<close>.
\<close>

definition products_fit :: "ULONGLONG \<Rightarrow> DataRunSegment list \<Rightarrow> bool" where
  "products_fit clusterSize' runs =
     list_all (\<lambda>run. sint (length_run run) \<le> 0
                \<or> (sint (length_run run) * uint clusterSize' < 2 ^ 64
                   \<and> (sparse run \<or> sint (lcn run) \<le> 0
                      \<or> sint (lcn run) * uint clusterSize' < 2 ^ 63))) runs"

subsection \<open>The entry point recoverDataRuns\<close>

definition IsObject :: "jsvalue \<Rightarrow> bool" where
  "IsObject v = (case v of JSObject props \<Rightarrow> True | JSArray xs \<Rightarrow> True | JSFunction \<Rightarrow> True
                 | _ \<Rightarrow> False)"

text \<open>
  \<^verbatim>\<open>obj.Get(key)\<close>: a property of a plain object; of an array and of a function only
  \<open>length\<close> is represented (for a function its value 0 stands for the arity).
\<close>

definition js_get :: "jsvalue \<Rightarrow> string \<Rightarrow> jsvalue" where
  "js_get v key =
     (case v of
        JSObject props \<Rightarrow> (case map_of props key of None \<Rightarrow> JSUndefined | Some x \<Rightarrow> x)
      | JSArray xs \<Rightarrow> (if key = ''length'' then JSNumber (real (length xs)) else JSUndefined)
      | JSFunction \<Rightarrow> (if key = ''length'' then JSNumber 0 else JSUndefined)
      | _ \<Rightarrow> JSUndefined)"

text \<open>
  \<^verbatim>\<open>static_cast<long long>(double)\<close> and \<^verbatim>\<open>static_cast<ULONGLONG>(double)\<close>: the
  fraction is dropped; a value out of range is undefined in C++ and wraps here.
\<close>

definition double_to_word :: "real \<Rightarrow> 64 word" where
  "double_to_word x = word_of_int (if x < 0 then \<lceil>x\<rceil> else \<lfloor>x\<rfloor>)"

text \<open>The body of the loop of \<^verbatim>\<open>ParseRunsArray\<close>, and the loop.\<close>

definition parse_run_entry :: "jsvalue \<Rightarrow> string + DataRunSegment" where
  "parse_run_entry v =
     (if \<not> IsObject v then Inl ''Run entry must be an object''
      else
        (case (case js_get v ''length'' of
                 JSString s \<Rightarrow>
                   (case TryParseSigned s 0 of
                      (True, x) \<Rightarrow> Inr x
                    | (False, x) \<Rightarrow> Inl ''Invalid run length'')
               | JSNumber x \<Rightarrow> Inr (double_to_word x)
               | _ \<Rightarrow> Inl ''Run length missing'') of
           Inl err \<Rightarrow> Inl err
         | Inr lengthClusters \<Rightarrow>
             (case (case js_get v ''lcn'' of
                      JSString s \<Rightarrow>
                        (case TryParseSigned s 0 of
                           (True, x) \<Rightarrow> Inr x
                         | (False, x) \<Rightarrow> Inl ''Invalid run LCN'')
                    | JSNumber x \<Rightarrow> Inr (double_to_word x)
                    | _ \<Rightarrow> Inl ''Run LCN missing'') of
                Inl err \<Rightarrow> Inl err
              | Inr lcnValue \<Rightarrow>
                  Inr \<lparr>vcnStart =
                         (case js_get v ''vcn'' of
                            JSString s \<Rightarrow> snd (TryParseSigned s 0)
                          | JSNumber x \<Rightarrow> double_to_word x
                          | _ \<Rightarrow> 0),
                       lcn = lcnValue,
                       length_run = lengthClusters,
                       sparse = (case js_get v ''sparse'' of JSBoolean b \<Rightarrow> b | _ \<Rightarrow> False)\<rparr>)))"

fun ParseRunsArray :: "jsvalue list \<Rightarrow> string + DataRunSegment list" where
  "ParseRunsArray [] = Inr []"
| "ParseRunsArray (v # rest) =
     (case parse_run_entry v of
        Inl err \<Rightarrow> Inl err
      | Inr segment \<Rightarrow>
          (case ParseRunsArray rest of
             Inl err \<Rightarrow> Inl err
           | Inr segments \<Rightarrow> Inr (segment # segments)))"

text \<open>
  \<^verbatim>\<open>RecoverDataRuns\<close>: either a \<^verbatim>\<open>TypeError\<close> is thrown to the caller and no worker
  is queued, or the worker is queued and runs \<^verbatim>\<open>Execute\<close>.
\<close>

datatype call_result =
    Thrown string
  | Queued "(string option \<times> byte list option) option"

definition parse_size_argument ::
  "jsvalue \<Rightarrow> bool \<Rightarrow> string \<Rightarrow> string \<Rightarrow> string \<Rightarrow> string + ULONGLONG" where
  "parse_size_argument v reject_zero invalid not_positive not_numeric =
     (case v of
        JSString s \<Rightarrow>
          (case TryParseUnsigned s 0 of
             (True, x) \<Rightarrow> Inr x
           | (False, x) \<Rightarrow> Inl invalid)
      | JSNumber x \<Rightarrow>
          if x < 0 \<or> (reject_zero \<and> x = 0) then Inl not_positive
          else Inr (double_to_word x)
      | _ \<Rightarrow> Inl not_numeric)"

definition RecoverDataRuns :: "recovery_env \<Rightarrow> nat \<Rightarrow> jsvalue list \<Rightarrow> call_result" where
  "RecoverDataRuns env fuel info =
     (if length info < 6
      then Thrown ''Expected drive, runs, cluster size, file size, output path, and callback''
      else case info ! 0 of
        JSString drive \<Rightarrow>
          (case info ! 1 of
             JSArray runsArray \<Rightarrow>
               (case parse_size_argument (info ! 2) True ''Invalid cluster size''
                       ''Cluster size must be positive'' ''Cluster size must be numeric'' of
                  Inl err \<Rightarrow> Thrown err
                | Inr clusterSize' \<Rightarrow>
                    (case parse_size_argument (info ! 3) False ''Invalid file size''
                            ''File size must be positive'' ''File size must be numeric'' of
                       Inl err \<Rightarrow> Thrown err
                     | Inr fileSize \<Rightarrow>
                         (case info ! 4 of
                            JSString outputPath \<Rightarrow>
                              (case info ! 5 of
                                 JSFunction \<Rightarrow>
                                   (case ParseRunsArray runsArray of
                                      Inl err \<Rightarrow> Thrown err
                                    | Inr runs \<Rightarrow>
                                        Queued (DataRunRecoveryWorker_Execute env fuel drive runs
                                                  clusterSize' fileSize (Utf8ToWide env outputPath)))
                               | _ \<Rightarrow> Thrown ''Callback must be a function'')
                          | _ \<Rightarrow> Thrown ''Output path must be a string'')))
           | _ \<Rightarrow> Thrown ''Runs must be an array'')
      | _ \<Rightarrow> Thrown ''Drive letter must be a string'')"

text \<open>A run entry with its \<open>vcn\<close> property removed; other values are left as they are.\<close>

definition without_vcn :: "jsvalue \<Rightarrow> jsvalue" where
  "without_vcn v =
     (case v of
        JSObject props \<Rightarrow> JSObject (filter (\<lambda>(key, x). key \<noteq> ''vcn'') props)
      | _ \<Rightarrow> v)"

text \<open>
  A well-behaved system on an 8-byte volume \<open>10 .. 17\<close>: every open and seek succeeds,
  every read and write is complete.
\<close>

definition small_volume :: recovery_env where
  "small_volume =
     \<lparr>volume_open = (\<lambda>path. None), output_open = (\<lambda>path. None),
      volume_image = [10, 11, 12, 13, 14, 15, 16, 17],
      seek_error = (\<lambda>distance. None),
      read_count = (\<lambda>pos n. Inr n), write_count = (\<lambda>sz n. Inr n),
      stale_error = 0,
      Utf8ToWide = map (\<lambda>c. word_of_nat (of_char c))\<rparr>"


section \<open>Verification: little-endian readers and sign extension\<close>

lemma le_nat_append: "le_nat (xs @ ys) = le_nat xs + 256 ^ length xs * le_nat ys"
  by (induction xs) (auto simp: algebra_simps)

lemma le_nat_bound: "le_nat bs < 256 ^ length bs"
proof (induction bs)
  case Nil
  then show ?case by simp
next
  case (Cons b bs)
  have "unat b < 256" using unsigned_less[of b] by simp
  with Cons show ?case by simp
qed

lemma length_bytes_at [simp]: "length (bytes_at mem p n) = n"
  by (simp add: bytes_at_def)

lemma or_byte_is_add:
  fixes b :: byte
  assumes "x < 2 ^ k"
  shows "(word_of_nat x :: 64 word) OR push_bit k (ucast b) = word_of_nat (x + 2 ^ k * unat b)"
proof -
  have "(word_of_nat x :: 64 word) + push_bit k (ucast b) = word_of_nat x OR push_bit k (ucast b)"
  proof (rule disjunctive_add)
    fix n
    show "\<not> bit (word_of_nat x :: 64 word) n \<or> \<not> bit (push_bit k (ucast b :: 64 word)) n"
      by (metis assms bit_of_nat_iff bit_push_bit_iff bit_take_bit_iff
          take_bit_nat_eq_self_iff verit_comp_simplify1(3))
  qed
  moreover have "(push_bit k (ucast b) :: 64 word) = word_of_nat (2 ^ k * unat b)"
    by (simp add: push_bit_eq_mult)
  ultimately show ?thesis by simp
qed

text \<open>The byte-assembly loop computes the little-endian value of the bytes it reads.\<close>

lemma fold_or_bytes:
  "fold (\<lambda>i v. v OR push_bit (8 * i) (ucast (mem (p + i)))) [0..<n] (0 :: 64 word)
     = word_of_nat (le_nat (bytes_at mem p n))"
proof (induction n)
  case 0
  then show ?case by (simp add: bytes_at_def)
next
  case (Suc n)
  have b: "le_nat (bytes_at mem p n) < 2 ^ (8 * n)"
    using le_nat_bound[of "bytes_at mem p n"] by (simp add: power_mult)
  show ?case
    using Suc or_byte_is_add[OF b, of "mem (p + n)"]
    by (simp add: bytes_at_def le_nat_append power_mult)
qed

lemma top_bit_byte: "((b :: byte) AND 0x80 \<noteq> 0) = (128 \<le> unat b)"
proof -
  have "(b AND 2 ^ 7 = 0) = (\<not> bit b 7)"
    by (rule and_exp_eq_0_iff_not_bit)
  moreover have "bit b 7 = (128 \<le> unat b)"
  proof -
    have lt: "unat b < 256" using unsigned_less[of b] by simp
    have "bit b 7 = bit (unat b) 7" by (simp add: bit_unsigned_iff)
    also have "\<dots> = odd (unat b div 128)" by (simp add: bit_iff_odd)
    also have "\<dots> = (128 \<le> unat b)"
    proof (cases "128 \<le> unat b")
      case True
      with lt have "unat b div 128 = 1" by linarith
      with True show ?thesis by simp
    next
      case False
      then have "unat b div 128 = 0" by simp
      with False show ?thesis by simp
    qed
    finally show ?thesis .
  qed
  ultimately show ?thesis by simp
qed

lemma sint_in_range:
  "- (2 ^ 63) \<le> x \<Longrightarrow> x < 2 ^ 63 \<Longrightarrow> sint (word_of_int x :: 64 word) = x"
  by (simp add: sint_sbintrunc' signed_take_bit_int_eq_self)

lemma sint_small: "x < 2 ^ 63 \<Longrightarrow> sint (word_of_nat x :: 64 word) = int x"
  using sint_in_range[of "int x"] by simp

lemma sint_big:
  assumes "2 ^ 63 \<le> x" "x < 2 ^ 64"
  shows "sint (word_of_nat x :: 64 word) = int x - 2 ^ 64"
proof -
  have a: "(word_of_nat x :: 64 word) = word_of_int (int x - 2 ^ 64)"
    by simp
  have b: "sint (word_of_int (int x - 2 ^ 64) :: 64 word) = int x - 2 ^ 64"
    using assms by (intro sint_in_range) auto
  show ?thesis unfolding a by (rule b)
qed

lemma or_sign_extension:
  assumes "x < 2 ^ k"
  shows "(word_of_nat x :: 64 word) OR push_bit k (- 1) = word_of_int (int x - 2 ^ k)"
proof -
  have "(word_of_nat x :: 64 word) + push_bit k (- 1) = word_of_nat x OR push_bit k (- 1)"
  proof (rule disjunctive_add)
    fix n
    show "\<not> bit (word_of_nat x :: 64 word) n \<or> \<not> bit (push_bit k (- 1) :: 64 word) n"
      by (metis assms bit_of_nat_iff bit_push_bit_iff bit_take_bit_iff
          take_bit_nat_eq_self_iff verit_comp_simplify1(3))
  qed
  then have d: "(word_of_nat x :: 64 word) OR push_bit k (- 1) = word_of_nat x + push_bit k (- 1)"
    by (rule sym)
  have e: "(push_bit k (- 1) :: 64 word) = - (2 ^ k)"
    by (simp add: push_bit_eq_mult del: push_bit_minus_one_eq_not_mask)
  have "(word_of_nat x :: 64 word) + - (2 ^ k) = word_of_int (int x - 2 ^ k)"
    by simp
  then show ?thesis unfolding d unfolding e .
qed

lemma ReadSignedValue_unfold:
  assumes "1 \<le> n" "n \<le> 8"
  shows "ReadSignedValue mem p (int n) =
     (if n < 8 \<and> mem (p + n - 1) AND 0x80 \<noteq> 0
      then word_of_nat (le_nat (bytes_at mem p n)) OR push_bit (n * 8) (- 1)
      else word_of_nat (le_nat (bytes_at mem p n)))"
  using assms unfolding ReadSignedValue_def fold_or_bytes
  by (simp add: Let_def del: push_bit_minus_one_eq_not_mask)

lemma ReadSignedValue_sint:
  assumes "1 \<le> n" "n \<le> 8"
  shows "sint (ReadSignedValue mem p (int n)) = twos_complement n (le_nat (bytes_at mem p n))"
proof -
  define u where "u = le_nat (bytes_at mem p n)"
  define hi where "hi = mem (p + n - 1)"
  define lo where "lo = le_nat (bytes_at mem p (n - 1))"
  define P :: nat where "P = 256 ^ (n - 1)"
  have n: "n = Suc (n - 1)" using assms by simp
  have split: "u = lo + P * unat hi"
    unfolding u_def lo_def hi_def P_def
    by (subst n, simp add: bytes_at_def le_nat_append) (use assms in simp)
  have lo: "lo < P"
    unfolding lo_def P_def using le_nat_bound[of "bytes_at mem p (n - 1)"] by simp
  have ub: "u < 2 ^ (8 * n)"
    unfolding u_def using le_nat_bound[of "bytes_at mem p n"] by (simp add: power_mult)
  have pw: "(2::nat) ^ (8 * n - 1) = 128 * P"
  proof -
    have "8 * n - 1 = 7 + 8 * (n - 1)" using assms by simp
    then show ?thesis by (simp add: power_add power_mult P_def)
  qed
  have top: "(hi AND 0x80 \<noteq> 0) = (2 ^ (8 * n - 1) \<le> u)"
    unfolding top_bit_byte
  proof
    assume "128 \<le> unat hi"
    then have "P * 128 \<le> P * unat hi" by (rule mult_le_mono2)
    then show "2 ^ (8 * n - 1) \<le> u" unfolding pw split by linarith
  next
    assume a: "2 ^ (8 * n - 1) \<le> u"
    show "128 \<le> unat hi"
    proof (rule ccontr)
      assume "\<not> 128 \<le> unat hi"
      then have "unat hi + 1 \<le> 128" by simp
      then have "P * (unat hi + 1) \<le> P * 128" by (rule mult_le_mono2)
      then have "P * unat hi + P \<le> P * 128" unfolding add_mult_distrib2 nat_mult_1_right .
      with lo a show False unfolding pw split by linarith
    qed
  qed
  have le63: "(2::int) ^ (8 * n - 1) \<le> 2 ^ 63"
    using assms by (intro power_increasing) auto
  have rsv: "ReadSignedValue mem p (int n) =
      (if n < 8 \<and> 2 ^ (8 * n - 1) \<le> u then word_of_nat u OR push_bit (n * 8) (- 1)
       else word_of_nat u)"
    unfolding ReadSignedValue_unfold[OF assms] u_def[symmetric] hi_def[symmetric] top ..
  have ubi: "int u < 2 ^ (8 * n)"
    using ub by (metis of_nat_less_iff of_nat_numeral of_nat_power)
  have pw2i: "(2::int) ^ (8 * n) = 2 * 2 ^ (8 * n - 1)"
    using assms by (simp flip: power_Suc)
  show ?thesis
  proof (cases "n < 8")
    case True
    show ?thesis
    proof (cases "2 ^ (8 * n - 1) \<le> u")
      case t: True
      then have ti: "2 ^ (8 * n - 1) \<le> int u"
        by (metis of_nat_le_iff of_nat_numeral of_nat_power)
      have "ReadSignedValue mem p (int n) = word_of_int (int u - 2 ^ (8 * n))"
        using True t or_sign_extension[OF ub]
        by (simp add: rsv mult.commute del: push_bit_minus_one_eq_not_mask)
      moreover have "sint (word_of_int (int u - 2 ^ (8 * n)) :: 64 word) = int u - 2 ^ (8 * n)"
        using ti ubi le63 pw2i by (intro sint_in_range) linarith+
      ultimately show ?thesis using t by (simp add: twos_complement_def u_def)
    next
      case f: False
      then have "int u < 2 ^ (8 * n - 1)"
        by (metis not_le of_nat_less_iff of_nat_numeral of_nat_power)
      with le63 have "int u < 2 ^ 63" by linarith
      then have "u < 2 ^ 63" by (metis of_nat_less_iff of_nat_numeral of_nat_power)
      then show ?thesis using f by (simp add: rsv sint_small twos_complement_def u_def)
    qed
  next
    case False
    then have n8: "n = 8" using assms by simp
    have r: "ReadSignedValue mem p (int n) = word_of_nat u" using False by (simp add: rsv)
    have ub8: "u < 2 ^ 64" using ub n8 by simp
    have tc: "twos_complement n u = (if 2 ^ 63 \<le> u then int u - 2 ^ 64 else int u)"
      by (simp add: twos_complement_def n8)
    show ?thesis
    proof (cases "2 ^ 63 \<le> u")
      case True
      show ?thesis unfolding r u_def[symmetric] tc using True sint_big[OF True ub8] by simp
    next
      case False
      then have "u < 2 ^ 63" by simp
      then show ?thesis unfolding r u_def[symmetric] tc using False sint_small[of u] by simp
    qed
  qed
qed

lemma ReadSignedValue_or_form:
  assumes "1 \<le> n" "n \<le> 8"
  shows "ReadSignedValue mem p (int n) =
     (if mem (p + n - 1) AND 0x80 \<noteq> 0
      then word_of_nat (le_nat (bytes_at mem p n)) OR push_bit (n * 8) (- 1)
      else word_of_nat (le_nat (bytes_at mem p n)))"
proof (cases "n < 8")
  case True
  then show ?thesis unfolding ReadSignedValue_unfold[OF assms] by simp
next
  case False
  then have n8: "n = 8" using assms by simp
  have z: "(push_bit (n * 8) (- 1) :: 64 word) = 0"
    unfolding n8 by (simp add: push_bit_eq_mult del: push_bit_minus_one_eq_not_mask)
  show ?thesis
    unfolding ReadSignedValue_unfold[OF assms] z using False by simp
qed

lemma ReadSignedValue_example_FFFF: "sint (ReadSignedValue (bytes_mem [0xFF, 0xFF]) 0 2) = - 1"
proof -
  have "twos_complement 2 (le_nat (bytes_at (bytes_mem [0xFF, 0xFF]) 0 2)) = - 1"
    by (simp add: twos_complement_def bytes_at_def bytes_mem_def upt_rec)
  then show ?thesis
    using ReadSignedValue_sint[of 2 "bytes_mem [0xFF, 0xFF]" 0] by simp
qed

lemma ReadSignedValue_example_0080: "sint (ReadSignedValue (bytes_mem [0x00, 0x80]) 0 2) = - 32768"
proof -
  have "twos_complement 2 (le_nat (bytes_at (bytes_mem [0x00, 0x80]) 0 2)) = - 32768"
    by (simp add: twos_complement_def bytes_at_def bytes_mem_def upt_rec)
  then show ?thesis
    using ReadSignedValue_sint[of 2 "bytes_mem [0x00, 0x80]" 0] by simp
qed

lemma ReadSignedValue_example_7F: "sint (ReadSignedValue (bytes_mem [0x7F]) 0 1) = 127"
proof -
  have "twos_complement 1 (le_nat (bytes_at (bytes_mem [0x7F]) 0 1)) = 127"
    by (simp add: twos_complement_def bytes_at_def bytes_mem_def upt_rec)
  then show ?thesis
    using ReadSignedValue_sint[of 1 "bytes_mem [0x7F]" 0] by simp
qed

text \<open>
  Claim C9. For every width \<open>n\<close> from 1 to 8 and every \<open>n\<close> bytes in memory, the signed
  decoder returns the two's-complement value of the little-endian bytes; when bit 7 of the
  highest byte is set, the result is the unsigned value OR-ed with \<open>-1\<close> shifted left by
  \<open>8 * n\<close> bits (a shift by 64 contributes nothing to a 64-bit value), and the unsigned
  value itself otherwise. In particular \<open>FF FF\<close> decodes to \<open>-1\<close>, \<open>00 80\<close> to
  \<open>-32768\<close> and \<open>7F\<close> to \<open>127\<close>.
\<close>

theorem ReadSignedValue_twos_complement:
  assumes "1 \<le> n" "n \<le> 8"
  shows "sint (ReadSignedValue mem p (int n)) = twos_complement n (le_nat (bytes_at mem p n))
       \<and> ReadSignedValue mem p (int n) =
           (if mem (p + n - 1) AND 0x80 \<noteq> 0
            then word_of_nat (le_nat (bytes_at mem p n)) OR push_bit (n * 8) (- 1)
            else word_of_nat (le_nat (bytes_at mem p n)))
       \<and> sint (ReadSignedValue (bytes_mem [0xFF, 0xFF]) 0 2) = - 1
       \<and> sint (ReadSignedValue (bytes_mem [0x00, 0x80]) 0 2) = - 32768
       \<and> sint (ReadSignedValue (bytes_mem [0x7F]) 0 1) = 127"
  by (intro conjI ReadSignedValue_sint[OF assms] ReadSignedValue_or_form[OF assms] 
     ReadSignedValue_example_FFFF ReadSignedValue_example_0080 ReadSignedValue_example_7F)

theorem ReadSignedValue_twos_complement_witness:
  "sint (ReadSignedValue (bytes_mem [0x34, 0xF2, 0xFF]) 0 (int 3)) = - 3532"
proof -
  have h1: "(1::nat) \<le> 3" and h2: "(3::nat) \<le> 8" by simp_all
  have t: "twos_complement 3 (le_nat (bytes_at (bytes_mem [0x34, 0xF2, 0xFF]) 0 3)) = - 3532"
    by (simp add: twos_complement_def bytes_at_def bytes_mem_def upt_rec)
  from ReadSignedValue_twos_complement[OF h1 h2, of "bytes_mem [0x34, 0xF2, 0xFF]" 0]
  have "sint (ReadSignedValue (bytes_mem [0x34, 0xF2, 0xFF]) 0 (int 3))
          = twos_complement 3 (le_nat (bytes_at (bytes_mem [0x34, 0xF2, 0xFF]) 0 3))"
    by (rule conjunct1)
  then show ?thesis unfolding t .
qed


section \<open>Verification: the run-list decoder\<close>

lemma le_nat_le_bytes: "le_nat (le_bytes n v) = v mod 256 ^ n"
proof (induction n)
  case 0 then show ?case by (simp add: le_bytes_def)
next
  case (Suc n)
  have a: "le_bytes (Suc n) v = le_bytes n v @ [word_of_nat (v div 256 ^ n)]"
    by (simp add: le_bytes_def)
  have b: "unat (word_of_nat (v div 256 ^ n) :: byte) = (v div 256 ^ n) mod 256"
    by (simp add: unat_of_nat)
  have c: "length (le_bytes n v) = n" by (simp add: le_bytes_def)
  have "v mod 256 ^ Suc n = 256 ^ n * (v div 256 ^ n mod 256) + v mod 256 ^ n"
    using mod_mult2_eq[of v "256 ^ n" 256] by (simp add: mult.commute)
  then show ?case unfolding a le_nat_append c Suc by (simp add: b)
qed

lemma low_nibble: "uint ((b :: byte) AND 0x0F) = int (unat b mod 16)"
proof -
  have "b AND 0x0F = take_bit 4 b"
    by (simp add: take_bit_eq_mask mask_eq_exp_minus_1)
  then have "unat (b AND 0x0F) = unat b mod 16"
    by (simp add: take_bit_eq_mod unat_mod)
  then show ?thesis by (metis uint_nat)
qed

lemma high_nibble: "uint (drop_bit 4 (b :: byte) AND 0x0F) = int (unat b div 16)"
proof -
  have lt: "unat b < 256" using unsigned_less[of b] by simp
  have "unat (drop_bit 4 b) = unat b div 16"
    by (simp add: drop_bit_eq_div unat_div)
  moreover have "unat b div 16 < 16" using lt by simp
  ultimately show ?thesis unfolding low_nibble by simp
qed

lemma header_nibbles:
  assumes "1 \<le> l" "l \<le> 8" "o' \<le> 8"
  shows "(word_of_nat (l + 16 * o') :: byte) \<noteq> 0"
    and "uint ((word_of_nat (l + 16 * o') :: byte) AND 0x0F) = int l"
    and "uint (drop_bit 4 (word_of_nat (l + 16 * o') :: byte) AND 0x0F) = int o'"
proof -
  have u: "unat (word_of_nat (l + 16 * o') :: byte) = l + 16 * o'"
    unfolding unat_of_nat using assms by simp
  show "(word_of_nat (l + 16 * o') :: byte) \<noteq> 0"
    using u assms by (metis add_is_0 not_one_le_zero unat_0)
  show "uint ((word_of_nat (l + 16 * o') :: byte) AND 0x0F) = int l"
    unfolding low_nibble u using assms by simp
  show "uint (drop_bit 4 (word_of_nat (l + 16 * o') :: byte) AND 0x0F) = int o'"
    unfolding high_nibble u using assms by simp
qed

lemma twos_complement_inverse:
  assumes "1 \<le> n" "- (2 ^ (8 * n - 1)) \<le> d" "d < 2 ^ (8 * n - 1)"
  shows "twos_complement n (nat (d mod 2 ^ (8 * n))) = d"
proof -
  define H :: int where "H = 2 ^ (8 * n - 1)"
  define M :: int where "M = 2 ^ (8 * n)"
  have M: "M = 2 * H" unfolding M_def H_def using assms(1) by (simp flip: power_Suc)
  have Hpos: "0 < H" unfolding H_def by simp
  have d: "- H \<le> d" "d < H" using assms unfolding H_def by simp_all
  have cmp: "\<And>u. (2 ^ (8 * n - 1) \<le> u) = (H \<le> int u)"
    unfolding H_def by (metis of_nat_le_iff of_nat_numeral of_nat_power)
  have tc: "\<And>u. twos_complement n u = (if H \<le> int u then int u - M else int u)"
    unfolding twos_complement_def cmp M_def by simp
  show ?thesis
  proof (cases "0 \<le> d")
    case True
    then have "d mod M = d" using d M Hpos by simp
    then show ?thesis unfolding tc M_def[symmetric] using True d by simp
  next
    case False
    have "d mod M = (d + M) mod M" by simp
    also have "\<dots> = d + M" using False d M Hpos by (intro mod_pos_pos_trivial) linarith+
    finally have "d mod M = d + M" .
    then show ?thesis unfolding tc M_def[symmetric] using False d M by simp
  qed
qed

lemma bytes_at_0 [simp]: "bytes_at mem p 0 = []"
  by (simp add: bytes_at_def)

lemma bytes_at_Suc: "bytes_at mem p (Suc n) = bytes_at mem p n @ [mem (p + n)]"
  by (simp add: bytes_at_def)

lemma bytes_at_add: "bytes_at mem p (m + n) = bytes_at mem p m @ bytes_at mem (p + m) n"
proof (induction n)
  case 0
  then show ?case by simp
next
  case (Suc n)
  have "bytes_at mem p (m + Suc n) = bytes_at mem p (m + n) @ [mem (p + (m + n))]"
    using bytes_at_Suc[of mem p "m + n"] by simp
  also have "\<dots> = bytes_at mem p m @ bytes_at mem (p + m) n @ [mem (p + m + n)]"
    unfolding Suc by (simp only: add.assoc append_assoc)
  also have "\<dots> = bytes_at mem p m @ bytes_at mem (p + m) (Suc n)"
    unfolding bytes_at_Suc[of mem "p + m" n] ..
  finally show ?case .
qed

lemma holds_at_append:
  "holds_at mem p (xs @ ys) = (holds_at mem p xs \<and> holds_at mem (p + length xs) ys)"
  by (simp add: holds_at_def bytes_at_add)

lemma holds_at_Cons:
  "holds_at mem p (x # xs) = (mem p = x \<and> holds_at mem (p + 1) xs)"
  using holds_at_append[of mem p "[x]" xs] by (simp add: holds_at_def bytes_at_def)

lemma length_le_bytes [simp]: "length (le_bytes n v) = n"
  by (simp add: le_bytes_def)

lemma length_encode_run:
  "length (encode_run r) = 1 + enc_lengthSize r + enc_offsetSize r"
  by (simp add: encode_run_def)

lemma ReadSignedValue_zero_width: "ReadSignedValue mem p 0 = 0"
  by (simp add: ReadSignedValue_def)

lemma ReadSignedValue_decodes_delta:
  assumes "o' \<le> 8"
    and "if o' = 0 then d = 0 else - (2 ^ (8 * o' - 1)) \<le> d \<and> d < 2 ^ (8 * o' - 1)"
    and "bytes_at mem p o' = le_bytes o' (nat (d mod 2 ^ (8 * o')))"
  shows "ReadSignedValue mem p (int o') = word_of_int d"
proof (cases "o' = 0")
  case True
  then show ?thesis using assms by (simp add: ReadSignedValue_zero_width)
next
  case False
  then have o1: "1 \<le> o'" by simp
  have d: "- (2 ^ (8 * o' - 1)) \<le> d" "d < 2 ^ (8 * o' - 1)" using assms(2) False by simp_all
  have lt: "nat (d mod 2 ^ (8 * o')) < 256 ^ o'"
  proof -
    have "d mod 2 ^ (8 * o') < 2 ^ (8 * o')" by simp
    then have "int (nat (d mod 2 ^ (8 * o'))) < int (256 ^ o')" by (simp add: power_mult)
    then show ?thesis by (simp only: of_nat_less_iff)
  qed
  have "sint (ReadSignedValue mem p (int o')) = twos_complement o' (nat (d mod 2 ^ (8 * o')))"
    unfolding ReadSignedValue_sint[OF o1 assms(1)] assms(3) le_nat_le_bytes
    using lt by simp
  also have "\<dots> = d" by (rule twos_complement_inverse[OF o1 d])
  finally have "sint (ReadSignedValue mem p (int o')) = d" .
  then have "word_of_int (sint (ReadSignedValue mem p (int o'))) = (word_of_int d :: 64 word)"
    by simp
  then show ?thesis by simp
qed

lemma ParseRunList_loop_unfold:
  assumes "p < endp" "mem p \<noteq> 0"
    and "uint (mem p AND 0x0F) = int ls" "uint (drop_bit 4 (mem p) AND 0x0F) = int os"
    and "1 \<le> ls" "p + 1 + ls + os \<le> endp"
  shows "ParseRunList_loop mem p endp v l =
     \<lparr>vcnStart = v, lcn = l + ReadSignedValue mem (p + 1 + ls) (int os),
      length_run = fold (\<lambda>i v. v OR push_bit (8 * i) (ucast (mem (p + 1 + i)))) [0..<ls] 0,
      sparse = (os = 0)\<rparr>
     # ParseRunList_loop mem (p + 1 + ls + os) endp
         (v + fold (\<lambda>i v. v OR push_bit (8 * i) (ucast (mem (p + 1 + i)))) [0..<ls] 0)
         (l + ReadSignedValue mem (p + 1 + ls) (int os))"
  using assms by (subst ParseRunList_loop.simps) (simp add: Let_def)

lemma ParseRunList_loop_step:
  assumes wf: "well_formed_run r"
    and mem: "holds_at mem p (encode_run r)"
    and fits: "p + length (encode_run r) < endp"
  shows "ParseRunList_loop mem p endp v l =
     \<lparr>vcnStart = v, lcn = l + word_of_int (enc_signedDelta r),
      length_run = word_of_nat (enc_lengthClusters r), sparse = (enc_offsetSize r = 0)\<rparr>
     # ParseRunList_loop mem (p + length (encode_run r)) endp
         (v + word_of_nat (enc_lengthClusters r)) (l + word_of_int (enc_signedDelta r))"
proof -
  define ls where "ls = enc_lengthSize r"
  define os where "os = enc_offsetSize r"
  define h :: byte where "h = word_of_nat (ls + 16 * os)"
  have w: "1 \<le> ls" "ls \<le> 8" "os \<le> 8" "enc_lengthClusters r < 2 ^ (8 * ls)"
    using wf unfolding well_formed_run_def ls_def os_def by simp_all
  have wd: "if os = 0 then enc_signedDelta r = 0
            else - (2 ^ (8 * os - 1)) \<le> enc_signedDelta r \<and> enc_signedDelta r < 2 ^ (8 * os - 1)"
    using wf unfolding well_formed_run_def os_def by (simp split: if_splits)
  have mh: "mem p = h"
    and ml: "bytes_at mem (p + 1) ls = le_bytes ls (enc_lengthClusters r)"
    and mo: "bytes_at mem (p + 1 + ls) os = le_bytes os (nat (enc_signedDelta r mod 2 ^ (8 * os)))"
    using mem unfolding encode_run_def holds_at_Cons holds_at_append ls_def os_def h_def
    by (simp_all add: holds_at_def)
  have len: "length (encode_run r) = 1 + ls + os"
    unfolding length_encode_run ls_def os_def ..
  have hn: "h \<noteq> 0" "uint (h AND 0x0F) = int ls" "uint (drop_bit 4 h AND 0x0F) = int os"
    unfolding h_def using header_nibbles[OF w(1,2,3)] by simp_all
  have rl: "fold (\<lambda>i v. v OR push_bit (8 * i) (ucast (mem (p + 1 + i)))) [0..<ls] (0 :: 64 word)
              = word_of_nat (enc_lengthClusters r)"
  proof -
    have "enc_lengthClusters r < 256 ^ ls" using w(4) by (simp add: power_mult)
    then show ?thesis unfolding fold_or_bytes ml le_nat_le_bytes by simp
  qed
  have ro: "ReadSignedValue mem (p + 1 + ls) (int os) = word_of_int (enc_signedDelta r)"
    by (rule ReadSignedValue_decodes_delta[OF w(3) wd mo])
  have cond: "p < endp" "\<not> (int (p + 1) + int ls + int os > int endp)"
    using fits len by simp_all
  have c: "p < endp" "p + 1 + ls + os \<le> endp" using fits len by simp_all
  have e: "p + 1 + ls + os = p + length (encode_run r)" using len by simp
  note u = ParseRunList_loop_unfold[where mem = mem and p = p and endp = endp and ls = ls
      and os = os and v = v and l = l,
      OF c(1) hn(1)[folded mh] hn(2)[folded mh] hn(3)[folded mh] w(1) c(2)]
  show ?thesis
    using u[unfolded rl ro e] unfolding os_def by simp
qed

lemma ParseRunList_loop_end:
  assumes "mem p = 0"
  shows "ParseRunList_loop mem p endp v l = []"
  using assms by (subst ParseRunList_loop.simps) simp

lemma holds_at_encode_run_list_Cons:
  "holds_at mem p (encode_run_list (r # rs)) =
     (holds_at mem p (encode_run r) \<and> holds_at mem (p + length (encode_run r)) (encode_run_list rs))"
  by (simp add: encode_run_list_def holds_at_append)

lemma length_encode_run_list_Cons:
  "length (encode_run_list (r # rs)) = length (encode_run r) + length (encode_run_list rs)"
  by (simp add: encode_run_list_def)

lemma length_encode_run_list_pos: "0 < length (encode_run_list rs)"
  by (simp add: encode_run_list_def)

text \<open>
  On a buffer that holds a well-formed encoded run list inside the attribute, the decoding
  loop of the source yields the segments of the specification's running-total rule.
\<close>

lemma ParseRunList_loop_decodes:
  assumes "\<forall>r \<in> set rs. well_formed_run r"
    and "holds_at mem p (encode_run_list rs)"
    and "p + length (encode_run_list rs) \<le> endp"
  shows "ParseRunList_loop mem p endp v l = expected_segments v l rs"
  using assms
proof (induction rs arbitrary: p v l)
  case Nil
  then have "mem p = 0" by (simp add: encode_run_list_def holds_at_Cons)
  then show ?case by (simp add: ParseRunList_loop_end)
next
  case (Cons r rs)
  have wf: "well_formed_run r" using Cons.prems(1) by simp
  have h1: "holds_at mem p (encode_run r)"
    and h2: "holds_at mem (p + length (encode_run r)) (encode_run_list rs)"
    using Cons.prems(2) unfolding holds_at_encode_run_list_Cons by simp_all
  have f1: "p + length (encode_run r) < endp"
    using Cons.prems(3) length_encode_run_list_pos[of rs]
    unfolding length_encode_run_list_Cons by linarith
  have f2: "p + length (encode_run r) + length (encode_run_list rs) \<le> endp"
    using Cons.prems(3) unfolding length_encode_run_list_Cons by linarith
  have wfs: "\<forall>r \<in> set rs. well_formed_run r" using Cons.prems(1) by simp
  show ?case
    unfolding ParseRunList_loop_step[OF wf h1 f1] Cons.IH[OF wfs h2 f2]
    by simp
qed

lemma ParseRunList_decodes:
  assumes "\<forall>r \<in> set rs. well_formed_run r"
    and "attr_NonResident mem a \<noteq> 0"
    and "holds_at mem (a + unat (NonResidentData_RunOffset mem a)) (encode_run_list rs)"
    and "unat (NonResidentData_RunOffset mem a) + length (encode_run_list rs)
           \<le> unat (attr_Length mem a)"
  shows "ParseRunList mem a = expected_segments (NonResidentData_LowestVcn mem a) 0 rs"
proof -
  have "a + unat (NonResidentData_RunOffset mem a) + length (encode_run_list rs)
          \<le> a + unat (attr_Length mem a)"
    using assms(4) by linarith
  from ParseRunList_loop_decodes[OF assms(1) assms(3) this]
  show ?thesis using assms(2) by (simp add: ParseRunList_def)
qed

lemma length_expected_segments [simp]: "length (expected_segments v l rs) = length rs"
  by (induction rs arbitrary: v l) simp_all

lemma expected_segments_nth:
  "i < length rs \<Longrightarrow>
   expected_segments v l rs ! i =
     \<lparr>vcnStart = v + word_of_nat (sum_list (map enc_lengthClusters (take i rs))),
      lcn = l + word_of_int (sum_list (map enc_signedDelta (take (Suc i) rs))),
      length_run = word_of_nat (enc_lengthClusters (rs ! i)),
      sparse = (enc_offsetSize (rs ! i) = 0)\<rparr>"
proof (induction rs arbitrary: i v l)
  case Nil
  then show ?case by simp
next
  case (Cons r rs)
  show ?case
  proof (cases i)
    case 0
    then show ?thesis by simp
  next
    case (Suc j)
    then have "j < length rs" using Cons.prems by simp
    from Cons.IH[OF this] show ?thesis unfolding Suc by (simp add: add.assoc)
  qed
qed

lemma expected_segments_vcn_step:
  assumes "Suc j < length rs"
  shows "vcnStart (expected_segments v l rs ! Suc j) =
         vcnStart (expected_segments v l rs ! j) + length_run (expected_segments v l rs ! j)"
proof -
  have j: "j < length rs" using assms by simp
  have "take (Suc j) rs = take j rs @ [rs ! j]" using j by (rule take_Suc_conv_app_nth)
  then show ?thesis
    unfolding expected_segments_nth[OF assms] expected_segments_nth[OF j] by simp
qed

lemma well_formed_length_bound:
  assumes "well_formed_run r"
  shows "enc_lengthClusters r < 2 ^ 64"
proof -
  have "enc_lengthClusters r < 2 ^ (8 * enc_lengthSize r)" "enc_lengthSize r \<le> 8"
    using assms unfolding well_formed_run_def by simp_all
  moreover have "(2::nat) ^ (8 * enc_lengthSize r) \<le> 2 ^ 64"
    using calculation(2) by (intro power_increasing) auto
  ultimately show ?thesis by linarith
qed

lemma scenario_hypotheses:
  "\<forall>r \<in> set scenario_runs. well_formed_run r"
  "attr_NonResident scenario_attribute 0 \<noteq> 0"
  "unat (NonResidentData_RunOffset scenario_attribute 0) = 64"
  "unat (attr_Length scenario_attribute 0) = 80"
  "encode_run_list scenario_runs = [0x21, 0x03, 0xE8, 0x03, 0x01, 0x02, 0x00]"
  "holds_at scenario_attribute 64 [0x21, 0x03, 0xE8, 0x03, 0x01, 0x02, 0x00]"
  "NonResidentData_LowestVcn scenario_attribute 0 = 0"
       apply (simp add: scenario_runs_def well_formed_run_def)
      apply (simp add: attr_NonResident_def scenario_attribute_def)
     apply (simp add: NonResidentData_RunOffset_def rd16_def bytes_at_def scenario_attribute_def upt_rec)
    apply (simp add: attr_Length_def rd32_def bytes_at_def scenario_attribute_def upt_rec)
   apply (simp add: encode_run_list_def encode_run_def le_bytes_def scenario_runs_def upt_rec)
  apply (simp add: holds_at_def bytes_at_def scenario_attribute_def upt_rec)
  apply (simp add: NonResidentData_LowestVcn_def rd64_def bytes_at_def scenario_attribute_def upt_rec)
  done

lemma LowestVcn_holds:
  assumes "holds_at mem (a + 16) (le_bytes 8 lowestVcn)"
  shows "NonResidentData_LowestVcn mem a = word_of_nat lowestVcn"
proof -
  have "bytes_at mem (a + 16) 8 = le_bytes 8 lowestVcn"
    using assms unfolding holds_at_def by simp
  hence "NonResidentData_LowestVcn mem a = word_of_nat (lowestVcn mod 256 ^ 8)"
    unfolding NonResidentData_LowestVcn_def rd64_def by (simp add: le_nat_le_bytes)
  also have "\<dots> = (word_of_nat lowestVcn :: 64 word)"
    by (simp add: word_of_nat_eq_iff take_bit_eq_mod)
  finally show ?thesis .
qed

lemma expected_segments_vcn_number:
  assumes "i < length rs"
    and "lowestVcn + sum_list (map enc_lengthClusters (take i rs)) < 2 ^ 63"
  shows "sint (vcnStart (expected_segments (word_of_nat lowestVcn) l rs ! i))
         = int (lowestVcn + sum_list (map enc_lengthClusters (take i rs)))"
proof -
  have "vcnStart (expected_segments (word_of_nat lowestVcn) l rs ! i)
      = word_of_nat (lowestVcn + sum_list (map enc_lengthClusters (take i rs)))"
    unfolding expected_segments_nth[OF assms(1)] by simp
  thus ?thesis using sint_small[OF assms(2)] by simp
qed

text \<open>
  Claim C2, as amended. For every well-formed run list (a sequence of runs, each a length
  in clusters and a signed delta, encoded per the run-list format) held inside a
  non-resident attribute whose \<open>LowestVcn\<close> field holds \<open>lowestVcn\<close>, the decoder yields
  one segment per run where, in 64-bit arithmetic (modulo \<open>2 ^ 64\<close>), each \<open>lcn\<close> is the
  sum of all signed deltas up to and including that run, each \<open>length\<close> is the encoded
  length, the first \<open>vcnStart\<close> is \<open>lowestVcn\<close> and each later \<open>vcnStart\<close> is the
  previous one plus the previous length. Read as signed numbers, \<open>lcn\<close> is that sum
  whenever the sum lies in the signed 64-bit range, \<open>length\<close> is the encoded length
  whenever it is below \<open>2 ^ 63\<close>, and \<open>vcnStart\<close> is \<open>lowestVcn\<close> plus the earlier
  lengths whenever that is below \<open>2 ^ 63\<close>. \<open>sparse\<close> is true exactly when the offset
  field width is 0 (in which case the delta is 0).
\<close>

theorem ParseRunList_round_trip:
  assumes "\<forall>r \<in> set rs. well_formed_run r"
    and "attr_NonResident mem a \<noteq> 0"
    and "holds_at mem (a + unat (NonResidentData_RunOffset mem a)) (encode_run_list rs)"
    and "unat (NonResidentData_RunOffset mem a) + length (encode_run_list rs)
           \<le> unat (attr_Length mem a)"
    and "holds_at mem (a + 16) (le_bytes 8 lowestVcn)"
  shows "length (ParseRunList mem a) = length rs
    \<and> (\<forall>i < length rs.
          lcn (ParseRunList mem a ! i)
            = word_of_int (sum_list (map enc_signedDelta (take (Suc i) rs)))
        \<and> (- (2 ^ 63) \<le> sum_list (map enc_signedDelta (take (Suc i) rs))
             \<and> sum_list (map enc_signedDelta (take (Suc i) rs)) < 2 ^ 63
           \<longrightarrow> sint (lcn (ParseRunList mem a ! i))
                 = sum_list (map enc_signedDelta (take (Suc i) rs)))
        \<and> length_run (ParseRunList mem a ! i) = word_of_nat (enc_lengthClusters (rs ! i))
        \<and> (enc_lengthClusters (rs ! i) < 2 ^ 63
           \<longrightarrow> sint (length_run (ParseRunList mem a ! i)) = int (enc_lengthClusters (rs ! i)))
        \<and> sparse (ParseRunList mem a ! i) = (enc_offsetSize (rs ! i) = 0)
        \<and> (enc_offsetSize (rs ! i) = 0 \<longrightarrow> enc_signedDelta (rs ! i) = 0)
        \<and> vcnStart (ParseRunList mem a ! i)
            = (if i = 0 then word_of_nat lowestVcn
               else vcnStart (ParseRunList mem a ! (i - 1))
                    + length_run (ParseRunList mem a ! (i - 1)))
        \<and> (lowestVcn + sum_list (map enc_lengthClusters (take i rs)) < 2 ^ 63
           \<longrightarrow> sint (vcnStart (ParseRunList mem a ! i))
                 = int (lowestVcn + sum_list (map enc_lengthClusters (take i rs)))))"
proof -
  define v0 :: longlong where "v0 = word_of_nat lowestVcn"
  have E: "ParseRunList mem a = expected_segments v0 0 rs"
    unfolding v0_def LowestVcn_holds[OF assms(5), symmetric]
    by (rule ParseRunList_decodes[OF assms(1-4)])
  have key: "lcn (expected_segments v0 0 rs ! i)
            = word_of_int (sum_list (map enc_signedDelta (take (Suc i) rs)))
        \<and> (- (2 ^ 63) \<le> sum_list (map enc_signedDelta (take (Suc i) rs))
             \<and> sum_list (map enc_signedDelta (take (Suc i) rs)) < 2 ^ 63
           \<longrightarrow> sint (lcn (expected_segments v0 0 rs ! i))
                 = sum_list (map enc_signedDelta (take (Suc i) rs)))
        \<and> length_run (expected_segments v0 0 rs ! i) = word_of_nat (enc_lengthClusters (rs ! i))
        \<and> (enc_lengthClusters (rs ! i) < 2 ^ 63
           \<longrightarrow> sint (length_run (expected_segments v0 0 rs ! i)) = int (enc_lengthClusters (rs ! i)))
        \<and> sparse (expected_segments v0 0 rs ! i) = (enc_offsetSize (rs ! i) = 0)
        \<and> (enc_offsetSize (rs ! i) = 0 \<longrightarrow> enc_signedDelta (rs ! i) = 0)
        \<and> vcnStart (expected_segments v0 0 rs ! i)
            = (if i = 0 then v0
               else vcnStart (expected_segments v0 0 rs ! (i - 1))
                    + length_run (expected_segments v0 0 rs ! (i - 1)))
        \<and> (lowestVcn + sum_list (map enc_lengthClusters (take i rs)) < 2 ^ 63
           \<longrightarrow> sint (vcnStart (expected_segments v0 0 rs ! i))
                 = int (lowestVcn + sum_list (map enc_lengthClusters (take i rs))))"
    if i: "i < length rs" for i
  proof -
    have wf: "well_formed_run (rs ! i)" using assms(1) i by simp
    have c1: "lcn (expected_segments v0 0 rs ! i)
            = word_of_int (sum_list (map enc_signedDelta (take (Suc i) rs)))"
      unfolding expected_segments_nth[OF i] by simp
    have c2: "- (2 ^ 63) \<le> sum_list (map enc_signedDelta (take (Suc i) rs))
             \<and> sum_list (map enc_signedDelta (take (Suc i) rs)) < 2 ^ 63
           \<longrightarrow> sint (lcn (expected_segments v0 0 rs ! i))
                 = sum_list (map enc_signedDelta (take (Suc i) rs))"
      unfolding c1 using sint_in_range by blast
    have c3: "length_run (expected_segments v0 0 rs ! i) = word_of_nat (enc_lengthClusters (rs ! i))"
      unfolding expected_segments_nth[OF i] by simp
    have c4: "enc_lengthClusters (rs ! i) < 2 ^ 63
           \<longrightarrow> sint (length_run (expected_segments v0 0 rs ! i)) = int (enc_lengthClusters (rs ! i))"
      unfolding c3 using sint_small by blast
    have c5: "sparse (expected_segments v0 0 rs ! i) = (enc_offsetSize (rs ! i) = 0)"
      unfolding expected_segments_nth[OF i] by simp
    have c6: "enc_offsetSize (rs ! i) = 0 \<longrightarrow> enc_signedDelta (rs ! i) = 0"
      using wf unfolding well_formed_run_def by (simp split: if_splits)
    have c7: "vcnStart (expected_segments v0 0 rs ! i)
            = (if i = 0 then v0
               else vcnStart (expected_segments v0 0 rs ! (i - 1))
                    + length_run (expected_segments v0 0 rs ! (i - 1)))"
    proof (cases i)
      case 0
      then show ?thesis using i expected_segments_nth[OF i, of v0 0] by simp
    next
      case (Suc j)
      then show ?thesis using expected_segments_vcn_step[of j rs v0 0] i by simp
    qed
    have c8: "lowestVcn + sum_list (map enc_lengthClusters (take i rs)) < 2 ^ 63
           \<longrightarrow> sint (vcnStart (expected_segments v0 0 rs ! i))
                 = int (lowestVcn + sum_list (map enc_lengthClusters (take i rs)))"
      unfolding v0_def using expected_segments_vcn_number[OF i] by blast
    show ?thesis
      by (intro conjI c1 c2 c3 c4 c5 c6 c7 c8)
  qed
  show ?thesis
    unfolding E v0_def[symmetric]
    apply (rule conjI)
     apply (rule length_expected_segments)
    apply (intro allI impI)
    apply (rule key)
    apply assumption
    done
qed

lemma continuation_hypotheses:
  "attr_NonResident continuation_attribute 0 \<noteq> 0"
  "unat (NonResidentData_RunOffset continuation_attribute 0) = 64"
  "unat (attr_Length continuation_attribute 0) = 80"
  "holds_at continuation_attribute 64 [0x21, 0x03, 0xE8, 0x03, 0x01, 0x02, 0x00]"
  "holds_at continuation_attribute 16 (le_bytes 8 5)"
      apply (simp add: attr_NonResident_def continuation_attribute_def scenario_attribute_def)
     apply (simp add: NonResidentData_RunOffset_def rd16_def bytes_at_def
              continuation_attribute_def scenario_attribute_def upt_rec)
    apply (simp add: attr_Length_def rd32_def bytes_at_def
             continuation_attribute_def scenario_attribute_def upt_rec)
   apply (simp add: holds_at_def bytes_at_def continuation_attribute_def scenario_attribute_def
            upt_rec)
  apply (simp add: holds_at_def bytes_at_def le_bytes_def continuation_attribute_def
           scenario_attribute_def upt_rec)
  done

text \<open>
  The run list \<open>21 03 E8 03 | 01 02 | 00\<close> in an attribute with \<open>LowestVcn = 5\<close>: the
  segments start at the clusters 5 and 8 of the file.
\<close>

theorem ParseRunList_round_trip_witness:
  "length (ParseRunList continuation_attribute 0) = 2
   \<and> sint (lcn (ParseRunList continuation_attribute 0 ! 0)) = 1000
   \<and> sint (length_run (ParseRunList continuation_attribute 0 ! 0)) = 3
   \<and> sparse (ParseRunList continuation_attribute 0 ! 0) = False
   \<and> sint (vcnStart (ParseRunList continuation_attribute 0 ! 0)) = 5
   \<and> sint (lcn (ParseRunList continuation_attribute 0 ! 1)) = 1000
   \<and> sint (length_run (ParseRunList continuation_attribute 0 ! 1)) = 2
   \<and> sparse (ParseRunList continuation_attribute 0 ! 1) = True
   \<and> sint (vcnStart (ParseRunList continuation_attribute 0 ! 1)) = 8
   \<and> vcnStart (ParseRunList continuation_attribute 0 ! 1)
       = vcnStart (ParseRunList continuation_attribute 0 ! 0)
         + length_run (ParseRunList continuation_attribute 0 ! 0)"
proof -
  have h3: "holds_at continuation_attribute
              (0 + unat (NonResidentData_RunOffset continuation_attribute 0))
              (encode_run_list scenario_runs)"
    unfolding continuation_hypotheses(2) scenario_hypotheses(5)
    using continuation_hypotheses(4) by simp
  have h4: "unat (NonResidentData_RunOffset continuation_attribute 0)
              + length (encode_run_list scenario_runs)
            \<le> unat (attr_Length continuation_attribute 0)"
    unfolding continuation_hypotheses(2,3) scenario_hypotheses(5) by simp
  have h5: "holds_at continuation_attribute (0 + 16) (le_bytes 8 5)"
    using continuation_hypotheses(5) by simp
  note t = ParseRunList_round_trip[OF scenario_hypotheses(1) continuation_hypotheses(1) h3 h4 h5]
  have len: "length scenario_runs = 2" by (simp add: scenario_runs_def)
  from t have l: "length (ParseRunList continuation_attribute 0) = 2" unfolding len by simp
  from t have all: "\<forall>i < 2.
          lcn (ParseRunList continuation_attribute 0 ! i)
            = word_of_int (sum_list (map enc_signedDelta (take (Suc i) scenario_runs)))
        \<and> (- (2 ^ 63) \<le> sum_list (map enc_signedDelta (take (Suc i) scenario_runs))
             \<and> sum_list (map enc_signedDelta (take (Suc i) scenario_runs)) < 2 ^ 63
           \<longrightarrow> sint (lcn (ParseRunList continuation_attribute 0 ! i))
                 = sum_list (map enc_signedDelta (take (Suc i) scenario_runs)))
        \<and> length_run (ParseRunList continuation_attribute 0 ! i)
            = word_of_nat (enc_lengthClusters (scenario_runs ! i))
        \<and> (enc_lengthClusters (scenario_runs ! i) < 2 ^ 63
           \<longrightarrow> sint (length_run (ParseRunList continuation_attribute 0 ! i))
               = int (enc_lengthClusters (scenario_runs ! i)))
        \<and> sparse (ParseRunList continuation_attribute 0 ! i)
            = (enc_offsetSize (scenario_runs ! i) = 0)
        \<and> (enc_offsetSize (scenario_runs ! i) = 0 \<longrightarrow> enc_signedDelta (scenario_runs ! i) = 0)
        \<and> vcnStart (ParseRunList continuation_attribute 0 ! i)
            = (if i = 0 then word_of_nat 5
               else vcnStart (ParseRunList continuation_attribute 0 ! (i - 1))
                    + length_run (ParseRunList continuation_attribute 0 ! (i - 1)))
        \<and> (5 + sum_list (map enc_lengthClusters (take i scenario_runs)) < 2 ^ 63
           \<longrightarrow> sint (vcnStart (ParseRunList continuation_attribute 0 ! i))
                 = int (5 + sum_list (map enc_lengthClusters (take i scenario_runs))))"
    unfolding len by (rule conjunct2)
  from all[rule_format, of 0] have i0:
    "sint (lcn (ParseRunList continuation_attribute 0 ! 0)) = 1000
     \<and> sint (length_run (ParseRunList continuation_attribute 0 ! 0)) = 3
     \<and> sparse (ParseRunList continuation_attribute 0 ! 0) = False
     \<and> sint (vcnStart (ParseRunList continuation_attribute 0 ! 0)) = 5"
    by (simp add: scenario_runs_def)
  from all[rule_format, of 1] have i1:
    "sint (lcn (ParseRunList continuation_attribute 0 ! 1)) = 1000
     \<and> sint (length_run (ParseRunList continuation_attribute 0 ! 1)) = 2
     \<and> sparse (ParseRunList continuation_attribute 0 ! 1) = True
     \<and> sint (vcnStart (ParseRunList continuation_attribute 0 ! 1)) = 8
     \<and> vcnStart (ParseRunList continuation_attribute 0 ! 1)
       = vcnStart (ParseRunList continuation_attribute 0 ! 0)
         + length_run (ParseRunList continuation_attribute 0 ! 0)"
    by (auto simp add: scenario_runs_def)
  from l i0 i1 show ?thesis by blast
qed

lemma overflow_hypotheses:
  "\<forall>r \<in> set overflow_runs. well_formed_run r"
  "attr_NonResident overflow_attribute 0 \<noteq> 0"
  "unat (NonResidentData_RunOffset overflow_attribute 0) = 64"
  "unat (attr_Length overflow_attribute 0) = 96"
  "encode_run_list overflow_runs
     = [0x88, 0, 0, 0, 0, 0, 0, 0, 0x80, 0, 0, 0, 0, 0, 0, 0, 0x40,
        0x81, 0x01, 0, 0, 0, 0, 0, 0, 0, 0x40, 0]"
  "holds_at overflow_attribute 64
     [0x88, 0, 0, 0, 0, 0, 0, 0, 0x80, 0, 0, 0, 0, 0, 0, 0, 0x40,
      0x81, 0x01, 0, 0, 0, 0, 0, 0, 0, 0x40, 0]"
       apply (simp add: overflow_runs_def well_formed_run_def)
      apply (simp add: attr_NonResident_def overflow_attribute_def)
     apply (simp add: NonResidentData_RunOffset_def rd16_def bytes_at_def overflow_attribute_def
              upt_rec)
    apply (simp add: attr_Length_def rd32_def bytes_at_def overflow_attribute_def upt_rec)
   apply (simp add: encode_run_list_def encode_run_def le_bytes_def overflow_runs_def upt_rec)
  apply (simp add: holds_at_def bytes_at_def overflow_attribute_def upt_rec)
  done

lemma ParseRunList_overflow_attribute:
  "ParseRunList overflow_attribute 0
     = expected_segments (NonResidentData_LowestVcn overflow_attribute 0) 0 overflow_runs"
proof -
  have h3: "holds_at overflow_attribute
              (0 + unat (NonResidentData_RunOffset overflow_attribute 0))
              (encode_run_list overflow_runs)"
    unfolding overflow_hypotheses(3) overflow_hypotheses(5)
    using overflow_hypotheses(6) by simp
  have h4: "unat (NonResidentData_RunOffset overflow_attribute 0)
              + length (encode_run_list overflow_runs)
            \<le> unat (attr_Length overflow_attribute 0)"
    unfolding overflow_hypotheses(3,4,5) by simp
  show ?thesis
    by (rule ParseRunList_decodes[OF overflow_hypotheses(1) overflow_hypotheses(2) h3 h4])
qed

text \<open>
  The claim as stated, with the equalities read as numbers, fails on a well-formed run
  list: an 8-byte length field of \<open>2 ^ 63\<close> is decoded into a \<^verbatim>\<open>long long\<close> as
  \<open>- 2 ^ 63\<close>, and two deltas of \<open>2 ^ 62\<close> add up to \<open>- 2 ^ 63\<close> instead of \<open>2 ^ 63\<close>.
\<close>

theorem ParseRunList_overflow_counterexample:
  "well_formed_run (overflow_runs ! 0) \<and> well_formed_run (overflow_runs ! 1)
   \<and> attr_NonResident overflow_attribute 0 \<noteq> 0
   \<and> holds_at overflow_attribute (0 + unat (NonResidentData_RunOffset overflow_attribute 0))
        (encode_run_list overflow_runs)
   \<and> unat (NonResidentData_RunOffset overflow_attribute 0)
        + length (encode_run_list overflow_runs) \<le> unat (attr_Length overflow_attribute 0)
   \<and> length (ParseRunList overflow_attribute 0) = 2
   \<and> int (enc_lengthClusters (overflow_runs ! 0)) = 2 ^ 63
   \<and> sint (length_run (ParseRunList overflow_attribute 0 ! 0)) = - (2 ^ 63)
   \<and> sum_list (map enc_signedDelta (take 2 overflow_runs)) = 2 ^ 63
   \<and> sint (lcn (ParseRunList overflow_attribute 0 ! 1)) = - (2 ^ 63)"
proof -
  have wf: "well_formed_run (overflow_runs ! 0) \<and> well_formed_run (overflow_runs ! 1)"
    by (simp add: overflow_runs_def well_formed_run_def)
  have h3: "holds_at overflow_attribute
              (0 + unat (NonResidentData_RunOffset overflow_attribute 0))
              (encode_run_list overflow_runs)"
    unfolding overflow_hypotheses(3) overflow_hypotheses(5)
    using overflow_hypotheses(6) by simp
  have h4: "unat (NonResidentData_RunOffset overflow_attribute 0)
              + length (encode_run_list overflow_runs)
            \<le> unat (attr_Length overflow_attribute 0)"
    unfolding overflow_hypotheses(3,4,5) by simp
  have big: "sint (word_of_nat (2 ^ 63) :: 64 word) = - (2 ^ 63)"
    using sint_big[of "2 ^ 63"] by simp
  have twice: "(word_of_int (2 ^ 62) + word_of_int (2 ^ 62) :: 64 word) = word_of_nat (2 ^ 63)"
    by simp
  have decoded: "length (ParseRunList overflow_attribute 0) = 2
      \<and> sint (length_run (ParseRunList overflow_attribute 0 ! 0)) = - (2 ^ 63)
      \<and> sint (lcn (ParseRunList overflow_attribute 0 ! 1)) = - (2 ^ 63)"
    unfolding ParseRunList_overflow_attribute
    using big twice by (simp add: overflow_runs_def)
  have spec: "int (enc_lengthClusters (overflow_runs ! 0)) = 2 ^ 63
      \<and> sum_list (map enc_signedDelta (take 2 overflow_runs)) = 2 ^ 63"
    by (simp add: overflow_runs_def)
  from wf overflow_hypotheses(2) h3 h4 decoded spec show ?thesis by blast
qed

lemma sint_length_positive_iff:
  assumes "n < 2 ^ 64"
  shows "(0 < sint (word_of_nat n :: 64 word)) = (0 < n \<and> n < 2 ^ 63)"
proof (cases "n < 2 ^ 63")
  case True
  then show ?thesis by (simp add: sint_small)
next
  case False
  then have "2 ^ 63 \<le> n" by simp
  from sint_big[OF this assms] assms False show ?thesis by simp
qed

text \<open>
  Claim C6, as amended. The decoder does not check the value of a length field: it emits a
  segment for every run it parses. For a well-formed run list held inside a non-resident
  attribute, an emitted segment has a strictly positive length exactly when the encoded
  length is non-zero and below \<open>2 ^ 63\<close>; a zero length field yields a segment of length
  0, and an 8-byte length with its top bit set yields a negative length.
\<close>

theorem ParseRunList_length_positive_iff:
  assumes "\<forall>r \<in> set rs. well_formed_run r"
    and "attr_NonResident mem a \<noteq> 0"
    and "holds_at mem (a + unat (NonResidentData_RunOffset mem a)) (encode_run_list rs)"
    and "unat (NonResidentData_RunOffset mem a) + length (encode_run_list rs)
           \<le> unat (attr_Length mem a)"
  shows "length (ParseRunList mem a) = length rs
    \<and> (\<forall>i < length (ParseRunList mem a).
          (0 < sint (length_run (ParseRunList mem a ! i)))
          = (0 < enc_lengthClusters (rs ! i) \<and> enc_lengthClusters (rs ! i) < 2 ^ 63))"
proof -
  have E: "ParseRunList mem a = expected_segments (NonResidentData_LowestVcn mem a) 0 rs"
    by (rule ParseRunList_decodes[OF assms])
  have "(0 < sint (length_run (expected_segments v 0 rs ! i)))
          = (0 < enc_lengthClusters (rs ! i) \<and> enc_lengthClusters (rs ! i) < 2 ^ 63)"
    if i: "i < length rs" for i v
  proof -
    have "well_formed_run (rs ! i)" using assms(1) i by simp
    then have "enc_lengthClusters (rs ! i) < 2 ^ 64" by (rule well_formed_length_bound)
    then show ?thesis
      unfolding expected_segments_nth[OF i] using sint_length_positive_iff by simp
  qed
  then show ?thesis unfolding E by simp
qed

lemma zero_length_hypotheses:
  "well_formed_run \<lparr>enc_lengthSize = 1, enc_lengthClusters = 0, enc_offsetSize = 0, enc_signedDelta = 0\<rparr>"
  "attr_NonResident zero_length_attribute 0 \<noteq> 0"
  "unat (NonResidentData_RunOffset zero_length_attribute 0) = 64"
  "unat (attr_Length zero_length_attribute 0) = 80"
  "encode_run_list [\<lparr>enc_lengthSize = 1, enc_lengthClusters = 0, enc_offsetSize = 0, enc_signedDelta = 0\<rparr>]
     = [0x01, 0x00, 0x00]"
  "holds_at zero_length_attribute 64 [0x01, 0x00, 0x00]"
  "NonResidentData_LowestVcn zero_length_attribute 0 = 0"
        apply (simp add: well_formed_run_def)
       apply (simp add: attr_NonResident_def zero_length_attribute_def)
      apply (simp add: NonResidentData_RunOffset_def rd16_def bytes_at_def zero_length_attribute_def upt_rec)
     apply (simp add: attr_Length_def rd32_def bytes_at_def zero_length_attribute_def upt_rec)
    apply (simp add: encode_run_list_def encode_run_def le_bytes_def upt_rec)
   apply (simp add: holds_at_def bytes_at_def zero_length_attribute_def upt_rec)
  apply (simp add: NonResidentData_LowestVcn_def rd64_def bytes_at_def zero_length_attribute_def upt_rec)
  done

lemma ParseRunList_zero_length_attribute:
  "ParseRunList zero_length_attribute 0
     = [\<lparr>vcnStart = 0, lcn = 0, length_run = 0, sparse = True\<rparr>]"
proof -
  define rs where "rs = [\<lparr>enc_lengthSize = 1, enc_lengthClusters = 0, enc_offsetSize = 0,
                           enc_signedDelta = 0\<rparr>]"
  have h1: "\<forall>r \<in> set rs. well_formed_run r"
    unfolding rs_def using zero_length_hypotheses(1) by simp
  have h3: "holds_at zero_length_attribute
              (0 + unat (NonResidentData_RunOffset zero_length_attribute 0)) (encode_run_list rs)"
    unfolding rs_def zero_length_hypotheses(3) zero_length_hypotheses(5)
    using zero_length_hypotheses(6) by simp
  have h4: "unat (NonResidentData_RunOffset zero_length_attribute 0) + length (encode_run_list rs)
            \<le> unat (attr_Length zero_length_attribute 0)"
    unfolding rs_def zero_length_hypotheses(3,4,5) by simp
  show ?thesis
    unfolding ParseRunList_decodes[OF h1 zero_length_hypotheses(2) h3 h4]
      zero_length_hypotheses(7)
    by (simp add: rs_def)
qed

text \<open>
  The claim as stated fails on the attribute whose run list is \<open>01 00 | 00\<close>: the decoder
  emits one segment, of length 0.
\<close>

theorem ParseRunList_zero_length_counterexample:
  "attr_NonResident zero_length_attribute 0 \<noteq> 0
   \<and> ParseRunList zero_length_attribute 0
       = [\<lparr>vcnStart = 0, lcn = 0, length_run = 0, sparse = True\<rparr>]
   \<and> \<not> 0 < sint (length_run (hd (ParseRunList zero_length_attribute 0)))"
  using zero_length_hypotheses(2) ParseRunList_zero_length_attribute by simp

theorem ParseRunList_length_positive_iff_witness:
  "length (ParseRunList scenario_attribute 0) = 2
   \<and> 0 < sint (length_run (ParseRunList scenario_attribute 0 ! 0))
   \<and> 0 < sint (length_run (ParseRunList scenario_attribute 0 ! 1))"
proof -
  have h3: "holds_at scenario_attribute (0 + unat (NonResidentData_RunOffset scenario_attribute 0))
              (encode_run_list scenario_runs)"
    unfolding scenario_hypotheses(3) scenario_hypotheses(5) using scenario_hypotheses(6) by simp
  have h4: "unat (NonResidentData_RunOffset scenario_attribute 0)
              + length (encode_run_list scenario_runs)
            \<le> unat (attr_Length scenario_attribute 0)"
    unfolding scenario_hypotheses(3,4,5) by simp
  note t = ParseRunList_length_positive_iff[OF scenario_hypotheses(1) scenario_hypotheses(2) h3 h4]
  have len: "length scenario_runs = 2" by (simp add: scenario_runs_def)
  from t have l: "length (ParseRunList scenario_attribute 0) = 2" unfolding len by simp
  from t l have a: "(0 < sint (length_run (ParseRunList scenario_attribute 0 ! 0)))
          = (0 < enc_lengthClusters (scenario_runs ! 0) \<and> enc_lengthClusters (scenario_runs ! 0) < 2 ^ 63)"
    by simp
  from t l have b: "(0 < sint (length_run (ParseRunList scenario_attribute 0 ! 1)))
          = (0 < enc_lengthClusters (scenario_runs ! 1) \<and> enc_lengthClusters (scenario_runs ! 1) < 2 ^ 63)"
    by simp
  show ?thesis using l a b by (simp add: scenario_runs_def)
qed

section \<open>Verification: device paths and path reconstruction\<close>

lemma volumePath_lengths:
  "length (ScanUsnWorker_volumePath drive) = 5"
  "length (specified_volumePath c) = 6"
  by (simp_all add: ScanUsnWorker_volumePath_def specified_volumePath_def)

text \<open>
  Claim C5 holds for \<open>getFileRecord\<close> and \<open>recoverDataRuns\<close> and fails for \<open>scan\<close>:
  for every drive character, \<^verbatim>\<open>FileRecordWorker\<close> and \<^verbatim>\<open>DataRunRecoveryWorker\<close> build
  exactly the specified device path, while \<^verbatim>\<open>ScanUsnWorker\<close> builds a path with a single
  leading backslash, one character shorter than the specified one.
\<close>

theorem ScanUsnWorker_volumePath_short:
  "FileRecordWorker_volumePath [c] = specified_volumePath c
   \<and> DataRunRecoveryWorker_volumePath [c] = specified_volumePath c
   \<and> ScanUsnWorker_volumePath [c] \<noteq> specified_volumePath c
   \<and> ScanUsnWorker_volumePath [c] = [backslash, CHR ''.'', backslash, toupper_C c, CHR '':'']
   \<and> toupper_C CHR ''c'' = CHR ''C''"
proof -
  have "length (ScanUsnWorker_volumePath [c]) \<noteq> length (specified_volumePath c)"
    unfolding volumePath_lengths by simp
  then have "ScanUsnWorker_volumePath [c] \<noteq> specified_volumePath c"
    by auto
  moreover have "toupper_C CHR ''c'' = CHR ''C''"
    by (simp add: toupper_C_def char_of_eq_iff)
  ultimately show ?thesis
    by (simp add: FileRecordWorker_volumePath_def DataRunRecoveryWorker_volumePath_def
        ScanUsnWorker_volumePath_def specified_volumePath_def)
qed

lemma walk_parents_path_segments:
  "guard \<le> maxDepth \<Longrightarrow>
   rev (walk_parents fileTable current guard segments)
     = path_segments fileTable (maxDepth - guard) current (rev segments)"
proof (induction fileTable current guard segments rule: walk_parents.induct)
  case (1 fileTable current guard segments)
  show ?case
  proof (cases "current \<noteq> 0 \<and> guard < maxDepth")
    case False
    then show ?thesis
      using "1.prems"
      by (subst walk_parents.simps) (cases "maxDepth - guard"; auto)
  next
    case True
    then obtain d where d: "maxDepth - guard = Suc d" "maxDepth - (guard + 1) = d"
      by (metis Suc_diff_Suc Suc_eq_plus1)
    show ?thesis
    proof (cases "fileTable current")
      case None
      then show ?thesis using True d by (subst walk_parents.simps) simp
    next
      case (Some e)
      define segs' where "segs' = (if fe_name e \<noteq> [] then segments @ [fe_name e] else segments)"
      show ?thesis
      proof (cases "current = fe_parentRef e")
        case t: True
        then show ?thesis using True d Some
          by (subst walk_parents.simps) (auto simp: Let_def)
      next
        case f: False
        have g: "guard + 1 \<le> maxDepth" using True by simp
        have ih: "rev (walk_parents fileTable (fe_parentRef e) (guard + 1) segs')
                 = path_segments fileTable (maxDepth - (guard + 1)) (fe_parentRef e) (rev segs')"
          using "1.IH"[OF True Some segs'_def f g] .
        show ?thesis
          using True d Some f ih
          by (subst walk_parents.simps) (auto simp: Let_def segs'_def)
      qed
    qed
  qed
qed

lemma path_segments_ancestors:
  "\<exists>xs. path_segments fileTable depth current acc = xs @ acc
        \<and> (\<forall>x \<in> set xs. x \<noteq> [] \<and> (\<exists>e \<in> ran fileTable. fe_name e = x))"
proof (induction depth arbitrary: current acc)
  case 0
  then show ?case by simp
next
  case (Suc depth)
  show ?case
  proof (cases "current = 0")
    case True
    then show ?thesis by simp
  next
    case False
    show ?thesis
    proof (cases "fileTable current")
      case None
      then show ?thesis using False by simp
    next
      case (Some e)
      then have e: "e \<in> ran fileTable" by (auto simp: ran_def)
      define acc' where "acc' = (if fe_name e = [] then acc else fe_name e # acc)"
      obtain ys where ys: "acc' = ys @ acc"
          "\<forall>x \<in> set ys. x \<noteq> [] \<and> (\<exists>e \<in> ran fileTable. fe_name e = x)"
      proof (cases "fe_name e = []")
        case True
        then have "acc' = [] @ acc" by (simp add: acc'_def)
        then show ?thesis using that[of "[]"] by simp
      next
        case False
        then have "acc' = [fe_name e] @ acc" by (simp add: acc'_def)
        then show ?thesis using that[of "[fe_name e]"] False e by auto
      qed
      show ?thesis
      proof (cases "fe_parentRef e = current")
        case True
        then have "path_segments fileTable (Suc depth) current acc = acc'"
          using False Some by (simp add: acc'_def Let_def)
        then show ?thesis using ys by auto
      next
        case f: False
        have r: "path_segments fileTable (Suc depth) current acc
                 = path_segments fileTable depth (fe_parentRef e) acc'"
          using False Some f by (simp add: acc'_def Let_def)
        from Suc.IH[of "fe_parentRef e" acc'] obtain xs where
          xs: "path_segments fileTable depth (fe_parentRef e) acc' = xs @ acc'"
              "\<forall>x \<in> set xs. x \<noteq> [] \<and> (\<exists>e \<in> ran fileTable. fe_name e = x)"
          by blast
        have "path_segments fileTable (Suc depth) current acc = xs @ acc'"
          unfolding r by (rule xs(1))
        then have "path_segments fileTable (Suc depth) current acc = (xs @ ys) @ acc"
          unfolding ys(1) by simp
        moreover have "\<forall>x \<in> set (xs @ ys). x \<noteq> [] \<and> (\<exists>e \<in> ran fileTable. fe_name e = x)"
          using xs(2) ys(2) by auto
        ultimately show ?thesis by blast
      qed
    qed
  qed
qed

lemma append_segments_separated:
  "p \<noteq> [] \<Longrightarrow> last p \<noteq> backslash
   \<Longrightarrow> \<forall>s \<in> set (butlast ss). s \<noteq> [] \<and> last s \<noteq> backslash
   \<Longrightarrow> append_segments p ss = p @ concat (map (\<lambda>s. backslash # s) ss)"
proof (induction ss arbitrary: p)
  case Nil
  then show ?case by simp
next
  case (Cons s rest)
  show ?case
  proof (cases "rest = []")
    case True
    then show ?thesis using Cons.prems by simp
  next
    case False
    then have s: "s \<noteq> []" "last s \<noteq> backslash" using Cons.prems(3) by simp_all
    have b: "\<forall>t \<in> set (butlast rest). t \<noteq> [] \<and> last t \<noteq> backslash"
      using Cons.prems(3) False by simp
    have "append_segments p (s # rest) = append_segments (p @ [backslash] @ s) rest"
      using Cons.prems(1,2) by simp
    also have "\<dots> = (p @ [backslash] @ s) @ concat (map (\<lambda>s. backslash # s) rest)"
      using s by (intro Cons.IH b) simp_all
    finally show ?thesis by simp
  qed
qed

lemma join_backslash_concat:
  "join_backslash (s # ss) = s @ concat (map (\<lambda>t. backslash # t) ss)"
  by (induction ss arbitrary: s) simp_all

lemma append_segments_from_root:
  assumes "last rt = backslash" "rt \<noteq> []" "ss \<noteq> []"
    and "\<forall>s \<in> set (butlast ss). s \<noteq> [] \<and> last s \<noteq> backslash"
  shows "append_segments rt ss = rt @ join_backslash ss"
proof -
  obtain s rest where ss: "ss = s # rest" using assms(3) by (cases ss) auto
  show ?thesis
  proof (cases "rest = []")
    case True
    then show ?thesis using assms(1) ss by simp
  next
    case False
    then have s: "s \<noteq> []" "last s \<noteq> backslash" using assms(4) ss by simp_all
    have b: "\<forall>t \<in> set (butlast rest). t \<noteq> [] \<and> last t \<noteq> backslash"
      using assms(4) ss False by simp
    have "append_segments rt ss = append_segments (rt @ s) rest"
      using assms(1) ss by simp
    also have "\<dots> = (rt @ s) @ concat (map (\<lambda>s. backslash # s) rest)"
      using s by (intro append_segments_separated b) simp_all
    finally show ?thesis unfolding ss join_backslash_concat by simp
  qed
qed

text \<open>
  Claim C8, as amended. For every deleted entry and every file table in which no name
  ends with a backslash, the path built by the source is the uppercased drive letter, a
  colon and a backslash, followed by the segments joined with backslashes from the
  outermost ancestor to the entry's own name, where the segments are collected as the
  specification says: the entry's own name first, each non-empty ancestor name prepended
  by repeated \<open>parentRef\<close> lookup, stopping at FRN 0, at a self-referential entry (whose
  name is still included), at a missing lookup, or after 1024 lookups. The function is
  total: a missing ancestor gives a partial path, never an error.
\<close>

theorem reconstruct_path_specified:
  assumes "no_trailing_backslash fileTable"
  shows "reconstruct_path fileTable (toupper_C driveChar) item
         = specified_path fileTable driveChar item"
proof -
  define segs where "segs = path_segments fileTable maxDepth (d_parentRef item) [d_name item]"
  have w: "rev (walk_parents fileTable (d_parentRef item) 0 [d_name item]) = segs"
    unfolding segs_def using walk_parents_path_segments[of 0 fileTable "d_parentRef item" "[d_name item]"]
    by simp
  obtain xs where xs: "segs = xs @ [d_name item]"
      "\<forall>x \<in> set xs. x \<noteq> [] \<and> (\<exists>e \<in> ran fileTable. fe_name e = x)"
    unfolding segs_def using path_segments_ancestors by blast
  have ne: "segs \<noteq> []" using xs(1) by simp
  have bl: "\<forall>s \<in> set (butlast segs). s \<noteq> [] \<and> last s \<noteq> backslash"
    using xs assms unfolding no_trailing_backslash_def by auto
  have "append_segments ([toupper_C driveChar] @ [CHR '':'', backslash]) segs
          = ([toupper_C driveChar] @ [CHR '':'', backslash]) @ join_backslash segs"
    by (rule append_segments_from_root[OF _ _ ne bl]) simp_all
  then show ?thesis
    unfolding reconstruct_path_def specified_path_def w segs_def maxDepth_def by simp
qed

lemma path_segments_pos:
  assumes "0 < depth"
  shows "path_segments fileTable depth current acc =
     (if current = 0 then acc
      else case fileTable current of
             None \<Rightarrow> acc
           | Some e \<Rightarrow>
               (let acc' = (if fe_name e = [] then acc else fe_name e # acc)
                in if fe_parentRef e = current then acc'
                   else path_segments fileTable (depth - 1) (fe_parentRef e) acc'))"
proof (cases depth)
  case 0
  then show ?thesis using assms by simp
next
  case (Suc n)
  show ?thesis unfolding Suc diff_Suc_1 by (rule path_segments.simps(2))
qed

lemma walk_parents_zero: "walk_parents fileTable 0 guard segments = segments"
  by (subst walk_parents.simps) simp

lemma example_table_no_trailing_backslash: "no_trailing_backslash example_table"
  by (simp add: no_trailing_backslash_def example_table_def backslash_def)

lemma specified_path_example:
  "specified_path example_table CHR ''d'' example_deleted
     = [CHR ''D'', CHR '':'', backslash] @ ''dir'' @ [backslash] @ ''f.txt''"
  by (simp add: specified_path_def example_table_def example_deleted_def path_segments_pos
      toupper_C_def char_of_eq_iff)

theorem reconstruct_path_specified_witness:
  "no_trailing_backslash example_table
   \<and> reconstruct_path example_table (toupper_C CHR ''d'') example_deleted
       = [CHR ''D'', CHR '':'', backslash] @ ''dir'' @ [backslash] @ ''f.txt''"
  using reconstruct_path_specified[OF example_table_no_trailing_backslash, of "CHR ''d''" example_deleted]
    example_table_no_trailing_backslash specified_path_example
  by simp

text \<open>
  Without the restriction the claim fails: after an ancestor whose name ends with a
  backslash the source pushes no separator, so the path has one backslash where joining
  with backslashes gives two.
\<close>

theorem reconstruct_path_backslash_counterexample:
  "reconstruct_path backslash_table (toupper_C CHR ''d'') backslash_deleted
     = [CHR ''D'', CHR '':'', backslash, CHR ''a'', backslash, CHR ''f'']
   \<and> specified_path backslash_table CHR ''d'' backslash_deleted
     = [CHR ''D'', CHR '':'', backslash, CHR ''a'', backslash, backslash, CHR ''f'']
   \<and> reconstruct_path backslash_table (toupper_C CHR ''d'') backslash_deleted
     \<noteq> specified_path backslash_table CHR ''d'' backslash_deleted"
proof -
  have u: "toupper_C CHR ''d'' = CHR ''D''" by (simp add: toupper_C_def char_of_eq_iff)
  have w: "walk_parents backslash_table 7 0 [''f''] = [''f'', [CHR ''a'', backslash]]"
    by (simp add: walk_parents.simps[of _ 7 0] walk_parents_zero backslash_table_def maxDepth_def)
  have a: "reconstruct_path backslash_table (toupper_C CHR ''d'') backslash_deleted
     = [CHR ''D'', CHR '':'', backslash, CHR ''a'', backslash, CHR ''f'']"
    unfolding reconstruct_path_def u by (simp add: backslash_deleted_def w)
  have b: "specified_path backslash_table CHR ''d'' backslash_deleted
     = [CHR ''D'', CHR '':'', backslash, CHR ''a'', backslash, backslash, CHR ''f'']"
    unfolding specified_path_def u
    by (simp add: backslash_table_def backslash_deleted_def path_segments_pos)
  show ?thesis unfolding a b by simp
qed

section \<open>Verification: journal enumeration\<close>

lemma empty_batch_buffer_next: "rd64 empty_batch_buffer 0 = 5"
  by (simp add: rd64_def bytes_at_def empty_batch_buffer_def bytes_mem_def upt_rec)

lemma enumerate_usn_stalls:
  "enumerate_usn WideToUtf8 empty_batch_at_zero fuel call 0 fileTable deleted requests = None"
  by (induction fuel arbitrary: call requests) (simp_all add: empty_batch_at_zero_def)

lemma enumerate_usn_empty_batch:
  "enumerate_usn WideToUtf8 empty_batch_then_eof (Suc (Suc fuel)) 0 0 fileTable deleted []
     = Some ([0, 0], Inr (fileTable, deleted))"
  by (simp add: empty_batch_then_eof_def)

text \<open>
  Claim C4 fails on the source. The first request (start FRN 0) is answered with an empty
  batch: 8 bytes, holding the next start FRN 5. The loop takes the \<^verbatim>\<open>continue\<close> before
  \<^verbatim>\<open>med.StartFileReferenceNumber = *nextUsn\<close>, so the second request carries start FRN 0
  again, not 5. On a volume that answers by the start FRN alone, the loop then repeats
  the same request and never returns, whatever the fuel.
\<close>

theorem enumerate_usn_empty_batch_repeats_start:
  "rd64 empty_batch_buffer 0 = 5
   \<and> enumerate_usn WideToUtf8 empty_batch_then_eof 2 0 0 fileTable deleted []
       = Some ([0, 0], Inr (fileTable, deleted))
   \<and> enumerate_usn WideToUtf8 empty_batch_at_zero fuel 0 0 fileTable deleted [] = None"
  using empty_batch_buffer_next enumerate_usn_stalls[of WideToUtf8 fuel 0 fileTable deleted "[]"]
    enumerate_usn_empty_batch[of WideToUtf8 0 fileTable deleted]
  by (simp add: numeral_2_eq_2)

section \<open>Verification: the record object\<close>

lemma parse_attribute_exclusive:
  "(a_nonResident (parse_attribute w mem p) \<longrightarrow> a_residentData (parse_attribute w mem p) = [])
   \<and> (\<not> a_nonResident (parse_attribute w mem p) \<longrightarrow> a_runs (parse_attribute w mem p) = [])"
  by (simp add: parse_attribute_def Let_def)

lemma ParseFileRecord_loop_members:
  "ai \<in> set (ParseFileRecord_loop w mem p e) \<Longrightarrow> \<exists>q. ai = parse_attribute w mem q"
proof (induction w mem p e rule: ParseFileRecord_loop.induct)
  case (1 w mem p e)
  show ?case
  proof (cases "p + sizeof_AttributeRecordHeader \<le> e
                \<and> \<not> (attr_Type mem p = 0xFFFFFFFF \<or> attr_Length mem p = 0)
                \<and> \<not> p + unat (attr_Length mem p) > e")
    case True
    then have u: "ParseFileRecord_loop w mem p e
        = parse_attribute w mem p # ParseFileRecord_loop w mem (p + unat (attr_Length mem p)) e"
      by (subst ParseFileRecord_loop.simps) simp
    from "1.prems" have "ai = parse_attribute w mem p
        \<or> ai \<in> set (ParseFileRecord_loop w mem (p + unat (attr_Length mem p)) e)"
      unfolding u by simp
    then show ?thesis
    proof
      assume "ai = parse_attribute w mem p"
      then show ?thesis by blast
    next
      assume "ai \<in> set (ParseFileRecord_loop w mem (p + unat (attr_Length mem p)) e)"
      then show ?thesis using "1.IH" True by simp
    qed
  next
    case False
    then have "ParseFileRecord_loop w mem p e = []"
      by (subst ParseFileRecord_loop.simps) auto
    then show ?thesis using "1.prems" by simp
  qed
qed

lemma FileRecordWorker_Execute_attributes:
  assumes "FileRecordWorker_Execute w cf gd dio drive fileRef = Inr details"
  shows "\<exists>mem p e. attributes details = ParseFileRecord_loop w mem p e"
  using assms
  apply (auto simp: FileRecordWorker_Execute_def ParseFileRecord_def
      split: if_splits prod.splits option.splits sum.splits)
  apply blast
  done

lemma has_field_attribute_object:
  "has_field ''runs'' (attribute_object attr) = (a_runs attr \<noteq> [])"
  "has_field ''residentDataBase64'' (attribute_object attr)
     = (a_runs attr = [] \<and> a_residentData attr \<noteq> [])"
  by (simp_all add: has_field_def attribute_object_def)

text \<open>
  Claim C3, as amended. For every attribute of the record returned by a successful
  \<open>getFileRecord\<close>, at most one of the fields \<open>runs\<close> and \<open>residentDataBase64\<close> is
  present: \<open>runs\<close> is present exactly when the attribute is non-resident and its decoded
  run list is non-empty, and \<open>residentDataBase64\<close> exactly when the attribute is resident
  and a non-empty payload was captured. An attribute with neither has neither field.
\<close>

theorem attribute_object_runs_or_resident:
  assumes "FileRecordWorker_Execute WideToUtf8 CreateFileW GetDiskFreeSpaceW DeviceIoControl
             drive fileRef = Inr details"
    and "attr \<in> set (attributes details)"
  shows "\<not> (has_field ''runs'' (attribute_object attr)
            \<and> has_field ''residentDataBase64'' (attribute_object attr))
       \<and> has_field ''runs'' (attribute_object attr)
           = (a_nonResident attr \<and> a_runs attr \<noteq> [])
       \<and> has_field ''residentDataBase64'' (attribute_object attr)
           = (\<not> a_nonResident attr \<and> a_residentData attr \<noteq> [])"
proof -
  obtain mem p e where "attributes details = ParseFileRecord_loop WideToUtf8 mem p e"
    using FileRecordWorker_Execute_attributes[OF assms(1)] by blast
  then obtain q where q: "attr = parse_attribute WideToUtf8 mem q"
    using ParseFileRecord_loop_members assms(2) by metis
  have x: "a_nonResident attr \<longrightarrow> a_residentData attr = []"
          "\<not> a_nonResident attr \<longrightarrow> a_runs attr = []"
    unfolding q using parse_attribute_exclusive by blast+
  show ?thesis unfolding has_field_attribute_object using x by blast
qed

lemma empty_runs_response_fields:
  "rd32 empty_runs_response 8 = 120"
  "hdr_Magic empty_runs_response 12 = 0x454C4946"
  "hdr_FirstAttributeOffset empty_runs_response 12 = 48"
  "attr_Type empty_runs_response 60 = 0x80"
  "attr_Length empty_runs_response 60 = 72"
  "attr_NonResident empty_runs_response 60 = 1"
  "NonResidentData_RunOffset empty_runs_response 60 = 64"
  "empty_runs_response 124 = 0"
  by (simp_all add: rd32_def rd16_def hdr_Magic_def hdr_FirstAttributeOffset_def attr_Type_def
      attr_Length_def attr_NonResident_def NonResidentData_RunOffset_def bytes_at_def upt_rec
      empty_runs_response_def)

lemma ParseRunList_empty_runs_response: "ParseRunList empty_runs_response 60 = []"
  unfolding ParseRunList_def empty_runs_response_fields
  by (simp add: ParseRunList_loop_end empty_runs_response_fields)

lemma ParseFileRecord_loop_empty_runs_response:
  "ParseFileRecord_loop w empty_runs_response 60 132
     = [parse_attribute w empty_runs_response 60]"
proof -
  have a: "ParseFileRecord_loop w empty_runs_response 132 132 = []"
    by (subst ParseFileRecord_loop.simps) (simp add: sizeof_AttributeRecordHeader_def)
  show ?thesis
    by (subst ParseFileRecord_loop.simps)
       (simp add: sizeof_AttributeRecordHeader_def empty_runs_response_fields a)
qed

lemma parse_attribute_empty_runs_response:
  "a_nonResident (parse_attribute w empty_runs_response 60)"
  "a_runs (parse_attribute w empty_runs_response 60) = []"
  "a_residentData (parse_attribute w empty_runs_response 60) = []"
  by (simp_all add: parse_attribute_def empty_runs_response_fields ParseRunList_empty_runs_response)

text \<open>
  The claim as stated (exactly one field, \<open>runs\<close> whenever the attribute is
  non-resident) fails on a record whose non-resident attribute has a run list that
  starts with the terminator: the call succeeds and the attribute has neither field.
\<close>

theorem attribute_object_neither_counterexample:
  "(case FileRecordWorker_Execute (\<lambda>ws. []) (\<lambda>path. None) (\<lambda>rt. (8, 512))
           (\<lambda>fileRef. Inr (132, empty_runs_response)) ''c'' 42 of
      Inl msg \<Rightarrow> []
    | Inr details \<Rightarrow>
        map (\<lambda>attr. (a_nonResident attr,
                     has_field ''runs'' (attribute_object attr),
                     has_field ''residentDataBase64'' (attribute_object attr)))
          (attributes details))
   = [(True, False, False)]"
  by (simp add: FileRecordWorker_Execute_def ParseFileRecord_def sizeof_NtfsFileRecordOutputBuffer_def
      sizeof_FileRecordHeader_def empty_runs_response_fields ParseFileRecord_loop_empty_runs_response
      parse_attribute_empty_runs_response has_field_attribute_object)

lemma two_attribute_response_fields:
  "rd32 two_attribute_response 8 = 200"
  "hdr_Magic two_attribute_response 12 = 0x454C4946"
  "hdr_FirstAttributeOffset two_attribute_response 12 = 48"
  "hdr_Flags two_attribute_response 12 = 0"
  "hdr_HardLinkCount two_attribute_response 12 = 0"
  "hdr_BaseFileRecord two_attribute_response 12 = 0"
  "attr_Type two_attribute_response 60 = 0x80"
  "attr_Length two_attribute_response 60 = 80"
  "attr_NonResident two_attribute_response 60 = 1"
  "NonResidentData_RunOffset two_attribute_response 60 = 64"
  "NonResidentData_LowestVcn two_attribute_response 60 = 0"
  "attr_Type two_attribute_response 140 = 0x30"
  "attr_Length two_attribute_response 140 = 72"
  "attr_NonResident two_attribute_response 140 = 0"
  "Resident_ValueLength two_attribute_response 140 = 4"
  "Resident_ValueOffset two_attribute_response 140 = 24"
  "bytes_at two_attribute_response 164 4 = [0x61, 0x62, 0x63, 0x64]"
  "holds_at two_attribute_response 124 [0x21, 0x03, 0xE8, 0x03, 0x01, 0x02, 0x00]"
  "attr_NameLength two_attribute_response 140 = 0"
  by (simp_all add: attr_NameLength_def rd64_def rd32_def rd16_def hdr_Magic_def hdr_FirstAttributeOffset_def
      hdr_Flags_def hdr_HardLinkCount_def hdr_BaseFileRecord_def attr_Type_def
      attr_Length_def attr_NonResident_def NonResidentData_RunOffset_def
      NonResidentData_LowestVcn_def Resident_ValueLength_def Resident_ValueOffset_def
      holds_at_def bytes_at_def upt_rec two_attribute_response_def)

lemma ParseRunList_two_attribute_response:
  "ParseRunList two_attribute_response 60
     = [\<lparr>vcnStart = 0, lcn = 1000, length_run = 3, sparse = False\<rparr>,
        \<lparr>vcnStart = 3, lcn = 1000, length_run = 2, sparse = True\<rparr>]"
proof -
  have h2: "attr_NonResident two_attribute_response 60 \<noteq> 0"
    unfolding two_attribute_response_fields by simp
  have h3: "holds_at two_attribute_response
              (60 + unat (NonResidentData_RunOffset two_attribute_response 60))
              (encode_run_list scenario_runs)"
    unfolding two_attribute_response_fields scenario_hypotheses(5)
    using two_attribute_response_fields(18) by simp
  have h4: "unat (NonResidentData_RunOffset two_attribute_response 60)
              + length (encode_run_list scenario_runs)
            \<le> unat (attr_Length two_attribute_response 60)"
    unfolding two_attribute_response_fields scenario_hypotheses(5) by simp
  show ?thesis
    unfolding ParseRunList_decodes[OF scenario_hypotheses(1) h2 h3 h4] two_attribute_response_fields
    by (simp add: scenario_runs_def)
qed

lemma ParseFileRecord_loop_two_attribute_response:
  "ParseFileRecord_loop w two_attribute_response 60 212
     = [parse_attribute w two_attribute_response 60, parse_attribute w two_attribute_response 140]"
proof -
  have a: "ParseFileRecord_loop w two_attribute_response 212 212 = []"
    by (subst ParseFileRecord_loop.simps) (simp add: sizeof_AttributeRecordHeader_def)
  have b: "ParseFileRecord_loop w two_attribute_response 140 212
            = [parse_attribute w two_attribute_response 140]"
    by (subst ParseFileRecord_loop.simps)
       (simp add: sizeof_AttributeRecordHeader_def two_attribute_response_fields a)
  show ?thesis
    by (subst ParseFileRecord_loop.simps)
       (simp add: sizeof_AttributeRecordHeader_def two_attribute_response_fields b)
qed

lemma parse_attribute_two_attribute_response:
  "a_nonResident (parse_attribute w two_attribute_response 60)"
  "a_runs (parse_attribute w two_attribute_response 60)
     = [\<lparr>vcnStart = 0, lcn = 1000, length_run = 3, sparse = False\<rparr>,
        \<lparr>vcnStart = 3, lcn = 1000, length_run = 2, sparse = True\<rparr>]"
  "\<not> a_nonResident (parse_attribute w two_attribute_response 140)"
  "a_residentData (parse_attribute w two_attribute_response 140) = [0x61, 0x62, 0x63, 0x64]"
  "a_runs (parse_attribute w two_attribute_response 140) = []"
  "a_name (parse_attribute w two_attribute_response 140) = []"
  by (simp_all add: parse_attribute_def two_attribute_response_fields
      ParseRunList_two_attribute_response ExtractAttributeName_def)

lemma Base64Encode_abcd: "Base64Encode [0x61, 0x62, 0x63, 0x64] = ''YWJjZA==''"
  by (simp add: alphabet_at_def alphabet_def)

lemma FileRecordWorker_Execute_two_attribute_response:
  "FileRecordWorker_Execute (\<lambda>ws. []) (\<lambda>path. None) (\<lambda>rt. (8, 512))
       (\<lambda>fileRef. Inr (212, two_attribute_response)) ''c'' 42
   = Inr \<lparr>inUse = False, isDirectory = False, baseReference = 0, hardLinkCount = 0, flags = 0,
          attributes = [parse_attribute (\<lambda>ws. []) two_attribute_response 60,
                        parse_attribute (\<lambda>ws. []) two_attribute_response 140],
          bytesPerSector = 512, sectorsPerCluster = 8, clusterSize = 4096\<rparr>"
  by (simp add: FileRecordWorker_Execute_def ParseFileRecord_def sizeof_NtfsFileRecordOutputBuffer_def
      sizeof_FileRecordHeader_def two_attribute_response_fields
      ParseFileRecord_loop_two_attribute_response)

theorem attribute_object_runs_or_resident_witness:
  "has_field ''runs'' (attribute_object (parse_attribute (\<lambda>ws. []) two_attribute_response 60))
   \<and> \<not> has_field ''residentDataBase64''
         (attribute_object (parse_attribute (\<lambda>ws. []) two_attribute_response 60))
   \<and> \<not> has_field ''runs''
         (attribute_object (parse_attribute (\<lambda>ws. []) two_attribute_response 140))
   \<and> has_field ''residentDataBase64''
         (attribute_object (parse_attribute (\<lambda>ws. []) two_attribute_response 140))
   \<and> map_of (attribute_object (parse_attribute (\<lambda>ws. []) two_attribute_response 140))
         ''residentDataBase64'' = Some (JSString ''YWJjZA=='')"
proof -
  note e = FileRecordWorker_Execute_two_attribute_response
  have m1: "parse_attribute (\<lambda>ws. []) two_attribute_response 60
              \<in> set (attributes \<lparr>inUse = False, isDirectory = False, baseReference = 0,
                  hardLinkCount = 0, flags = 0,
                  attributes = [parse_attribute (\<lambda>ws. []) two_attribute_response 60,
                                parse_attribute (\<lambda>ws. []) two_attribute_response 140],
                  bytesPerSector = 512, sectorsPerCluster = 8, clusterSize = 4096\<rparr>)"
    by simp
  have m2: "parse_attribute (\<lambda>ws. []) two_attribute_response 140
              \<in> set (attributes \<lparr>inUse = False, isDirectory = False, baseReference = 0,
                  hardLinkCount = 0, flags = 0,
                  attributes = [parse_attribute (\<lambda>ws. []) two_attribute_response 60,
                                parse_attribute (\<lambda>ws. []) two_attribute_response 140],
                  bytesPerSector = 512, sectorsPerCluster = 8, clusterSize = 4096\<rparr>)"
    by simp
  note t1 = attribute_object_runs_or_resident[OF e m1]
  note t2 = attribute_object_runs_or_resident[OF e m2]
  have b: "map_of (attribute_object (parse_attribute (\<lambda>ws. []) two_attribute_response 140))
         ''residentDataBase64'' = Some (JSString ''YWJjZA=='')"
    by (simp add: attribute_object_def parse_attribute_two_attribute_response Base64Encode_abcd
        del: Base64Encode.simps)
  show ?thesis
    using t1 t2 b by (simp add: parse_attribute_two_attribute_response)
qed

section \<open>Verification: recovery of data runs\<close>

subsection \<open>The integer parser\<close>

lemma takeWhile_full_length:
  "(length (takeWhile P xs) = length xs) = list_all P xs"
  by (induction xs) auto

lemma length_split_space:
  "length s = length (takeWhile isspace_C s) + length (dropWhile isspace_C s)"
  by (metis length_append takeWhile_dropWhile_id)

lemma scan_integer_unsigned:
  assumes "\<not> has_minus_sign s"
  shows "scan_integer s =
     (let r = dropWhile isspace_C s;
          rest = (if r \<noteq> [] \<and> hd r = CHR ''+'' then tl r else r);
          ds = takeWhile isdigit_C rest
      in if ds = [] then None
         else Some (False, ds, length s - length rest + length ds))"
proof -
  define r where "r = dropWhile isspace_C s"
  define plus where "plus = (r \<noteq> [] \<and> hd r = CHR ''+'')"
  define rest where "rest = (if plus then tl r else r)"
  have nm: "r = [] \<or> hd r \<noteq> CHR ''-''"
    using assms unfolding has_minus_sign_def r_def by blast
  have hs: "(r \<noteq> [] \<and> (hd r = CHR ''-'' \<or> hd r = CHR ''+'')) = plus"
    unfolding plus_def using nm by blast
  have ng: "(r \<noteq> [] \<and> hd r = CHR ''-'') = False"
    using nm by blast
  have len: "length s = length (takeWhile isspace_C s) + length r"
    unfolding r_def by (rule length_split_space)
  have "length r = (if plus then 1 else 0) + length rest"
    unfolding rest_def plus_def by (cases r) simp_all
  with len have idx: "length (takeWhile isspace_C s) + (if plus then 1 else 0)
      = length s - length rest"
    by linarith
  have "scan_integer s =
      (if takeWhile isdigit_C rest = [] then None
       else Some (False, takeWhile isdigit_C rest,
              length (takeWhile isspace_C s) + (if plus then 1 else 0)
                + length (takeWhile isdigit_C rest)))"
    unfolding scan_integer_def Let_def r_def[symmetric] hs ng rest_def ..
  also have "\<dots> =
      (if takeWhile isdigit_C rest = [] then None
       else Some (False, takeWhile isdigit_C rest,
              length s - length rest + length (takeWhile isdigit_C rest)))"
    unfolding idx ..
  finally show ?thesis
    unfolding Let_def rest_def plus_def r_def .
qed

lemma TryParseUnsigned_accepts:
  assumes "\<not> has_minus_sign s"
  shows "fst (TryParseUnsigned s output) = lenient_decimal s"
proof -
  define r where "r = dropWhile isspace_C s"
  define rest where "rest = (if r \<noteq> [] \<and> hd r = CHR ''+'' then tl r else r)"
  define ds where "ds = takeWhile isdigit_C rest"
  have scan: "scan_integer s =
      (if ds = [] then None else Some (False, ds, length s - length rest + length ds))"
    unfolding scan_integer_unsigned[OF assms] Let_def ds_def rest_def r_def ..
  have lenient: "lenient_decimal s = (is_decimal rest \<and> decimal_value rest < 2 ^ 64)"
    unfolding lenient_decimal_def Let_def rest_def r_def ..
  have "length r \<le> length s"
    unfolding r_def using length_split_space[of s] by linarith
  moreover have "length rest \<le> length r"
    unfolding rest_def by simp
  ultimately have le: "length rest \<le> length s" by linarith
  have dl: "length ds \<le> length rest" unfolding ds_def by (rule length_takeWhile_le)
  have full: "(length s - length rest + length ds = length s) = list_all isdigit_C rest"
    using le dl takeWhile_full_length[of isdigit_C rest] unfolding ds_def by linarith
  show ?thesis
  proof (cases "ds = []")
    case True
    hence "\<not> is_decimal rest"
      unfolding ds_def by (cases rest) (auto simp add: is_decimal_def split: if_splits)
    with True show ?thesis
      by (simp add: TryParseUnsigned_def stoull_def scan lenient)
  next
    case False
    hence ne: "rest \<noteq> []" unfolding ds_def by auto
    show ?thesis
    proof (cases "list_all isdigit_C rest")
      case True
      hence eq: "ds = rest" unfolding ds_def by (simp add: takeWhile_eq_all_conv list_all_iff)
      have "fst (TryParseUnsigned s output) = (\<not> decimal_value ds > 2 ^ 64 - 1)"
        using False full True
        by (simp add: TryParseUnsigned_def stoull_def scan)
      also have "\<dots> = (decimal_value rest < 2 ^ 64)"
        unfolding eq by auto
      also have "\<dots> = lenient_decimal s"
        using True ne by (simp add: lenient is_decimal_def)
      finally show ?thesis .
    next
      case nd: False
      have "fst (TryParseUnsigned s output) = False"
        using False full nd
        by (simp add: TryParseUnsigned_def stoull_def scan)
      moreover have "\<not> lenient_decimal s"
        using nd by (simp add: lenient is_decimal_def)
      ultimately show ?thesis by simp
    qed
  qed
qed


lemma parse_size_argument_rejects:
  assumes "\<not> has_minus_sign s" "\<not> lenient_decimal s"
  shows "parse_size_argument (JSString s) reject_zero invalid not_positive not_numeric
         = Inl invalid"
proof -
  have "fst (TryParseUnsigned s 0) = False"
    using TryParseUnsigned_accepts[OF assms(1), of 0] assms(2) by simp
  thus ?thesis
    by (cases "TryParseUnsigned s 0") (simp add: parse_size_argument_def)
qed

text \<open>
  Claim C7, as amended. For every string that has no minus sign in front of its digits
  and is passed as \<open>clusterSize\<close> or \<open>fileSize\<close> to \<open>recoverDataRuns\<close>: the integer
  parser, a total function giving a success flag, accepts it exactly when it is optional
  white space, an optional \<open>+\<close> and a non-empty run of decimal digits up to the end of the
  string, with a value below \<open>2 ^ 64\<close>; every other such string makes the call throw
  before a worker is queued, so that no recovery is performed.
\<close>

theorem RecoverDataRuns_rejects_malformed_size:
  "\<not> has_minus_sign s \<longrightarrow>
     fst (TryParseUnsigned s output) = lenient_decimal s
     \<and> (\<not> lenient_decimal s \<and> (info ! 2 = JSString s \<or> info ! 3 = JSString s)
          \<longrightarrow> (\<exists>message. RecoverDataRuns env fuel info = Thrown message))"
proof (intro impI conjI)
  assume "\<not> has_minus_sign s"
  thus "fst (TryParseUnsigned s output) = lenient_decimal s"
    by (rule TryParseUnsigned_accepts)
next
  assume nm: "\<not> has_minus_sign s"
    and bad: "\<not> lenient_decimal s \<and> (info ! 2 = JSString s \<or> info ! 3 = JSString s)"
  note rej = parse_size_argument_rejects[OF nm conjunct1[OF bad]]
  from bad have "info ! 2 = JSString s \<or> info ! 3 = JSString s" ..
  thus "\<exists>message. RecoverDataRuns env fuel info = Thrown message"
  proof
    assume "info ! 2 = JSString s"
    thus ?thesis
      by (simp add: RecoverDataRuns_def rej split: jsvalue.split)
  next
    assume "info ! 3 = JSString s"
    thus ?thesis
      by (simp add: RecoverDataRuns_def rej split: jsvalue.split sum.split)
  qed
qed


subsection \<open>Evaluation on concrete calls\<close>

lemmas parse_eval = TryParseUnsigned_def TryParseSigned_def stoull_def stoll_def scan_integer_def
  isdigit_C_def isspace_C_def decimal_value_def

lemmas call_eval = RecoverDataRuns_def parse_size_argument_def parse_run_entry_def IsObject_def
  js_get_def double_to_word_def DataRunRecoveryWorker_Execute_def

lemmas io_eval = small_volume_def SetFilePointerEx_def ReadFile_def WriteFile_def

lemma zero_bytes:
  "replicate 2 (0 :: byte) = [0, 0]"
  "replicate 4 (0 :: byte) = [0, 0, 0, 0]"
  by (simp_all add: numeral_eq_Suc)

text \<open>A file size with a trailing letter.\<close>

theorem RecoverDataRuns_rejects_malformed_size_witness:
  "\<not> has_minus_sign ''12a'' \<and> \<not> lenient_decimal ''12a''
   \<and> fst (TryParseUnsigned ''12a'' 0) = False
   \<and> (\<exists>message. RecoverDataRuns small_volume (Suc (Suc 0))
         [JSString ''C'', JSArray [], JSNumber 4096, JSString ''12a'', JSString ''out'',
          JSFunction] = Thrown message)"
proof -
  have a: "\<not> has_minus_sign ''12a''"
    by (simp add: has_minus_sign_def isspace_C_def)
  have b: "\<not> lenient_decimal ''12a''"
    by (simp add: lenient_decimal_def is_decimal_def isspace_C_def isdigit_C_def)
  from RecoverDataRuns_rejects_malformed_size[of "''12a''" 0
      "[JSString ''C'', JSArray [], JSNumber 4096, JSString ''12a'', JSString ''out'',
          JSFunction]" small_volume "Suc (Suc 0)"] a b
  show ?thesis by simp
qed

text \<open>
  The claim as stated fails on a cluster size with a leading blank: it is no decimal
  representation, and the call goes through and writes the file.
\<close>

theorem RecoverDataRuns_lenient_size_counterexample:
  "\<not> is_decimal '' 5''
   \<and> RecoverDataRuns small_volume (Suc (Suc 0))
       [JSString ''C'', JSArray [], JSString '' 5'', JSString ''10'', JSString ''out'',
        JSFunction]
     = Queued (Some (None, Some (replicate 10 0)))"
  by (simp add: is_decimal_def parse_eval call_eval io_eval Let_def)

text \<open>
  A minus sign is accepted as well, and the value negated in 64 bits, although the numeric
  path of the same arguments rejects negative values.
\<close>

lemma TryParseUnsigned_minus_sign: "TryParseUnsigned ''-1'' 0 = (True, - 1)"
  by (simp add: parse_eval)


subsection \<open>The vcn field\<close>

lemma runs_loop_ignores_vcn:
  "runs_loop env fuel cs bufferSize (map (\<lambda>run. run\<lparr>vcnStart := 0\<rparr>) runs) remaining out
   = runs_loop env fuel cs bufferSize runs remaining out"
  by (induction runs arbitrary: remaining out)
     (simp_all add: Let_def split: option.split prod.split)

lemma Execute_ignores_vcn:
  "DataRunRecoveryWorker_Execute env fuel drive (map (\<lambda>run. run\<lparr>vcnStart := 0\<rparr>) runs)
     cs fs outputPath
   = DataRunRecoveryWorker_Execute env fuel drive runs cs fs outputPath"
  unfolding DataRunRecoveryWorker_Execute_def runs_loop_ignores_vcn ..

lemma IsObject_without_vcn: "IsObject (without_vcn v) = IsObject v"
  by (cases v) (simp_all add: IsObject_def without_vcn_def)

lemma map_of_without_vcn:
  "key \<noteq> ''vcn'' \<Longrightarrow> map_of (filter (\<lambda>(k, x). k \<noteq> ''vcn'') props) key = map_of props key"
  by (induction props) auto

lemma js_get_without_vcn:
  "key \<noteq> ''vcn'' \<Longrightarrow> js_get (without_vcn v) key = js_get v key"
  by (cases v) (simp_all add: js_get_def without_vcn_def map_of_without_vcn)

lemma parse_run_entry_core:
  "map_sum id (\<lambda>run. run\<lparr>vcnStart := 0\<rparr>) (parse_run_entry (without_vcn v))
   = map_sum id (\<lambda>run. run\<lparr>vcnStart := 0\<rparr>) (parse_run_entry v)"
  by (simp add: parse_run_entry_def IsObject_without_vcn js_get_without_vcn
      split: sum.split jsvalue.split prod.split bool.split)

lemma ParseRunsArray_core:
  "map_sum id (map (\<lambda>run. run\<lparr>vcnStart := 0\<rparr>)) (ParseRunsArray (map without_vcn a))
   = map_sum id (map (\<lambda>run. run\<lparr>vcnStart := 0\<rparr>)) (ParseRunsArray a)"
proof (induction a)
  case Nil
  show ?case by simp
next
  case (Cons v rest)
  show ?case
    using parse_run_entry_core[of v] Cons.IH
    by (cases "parse_run_entry v"; cases "parse_run_entry (without_vcn v)";
        cases "ParseRunsArray rest"; cases "ParseRunsArray (map without_vcn rest)")
       simp_all
qed

lemma queued_ignores_vcn:
  assumes "map without_vcn a1 = map without_vcn a2"
  shows "(case ParseRunsArray a1 of Inl err \<Rightarrow> Thrown err
          | Inr runs \<Rightarrow> Queued (DataRunRecoveryWorker_Execute env fuel drive runs cs fs p))
       = (case ParseRunsArray a2 of Inl err \<Rightarrow> Thrown err
          | Inr runs \<Rightarrow> Queued (DataRunRecoveryWorker_Execute env fuel drive runs cs fs p))"
proof -
  have core: "map_sum id (map (\<lambda>run. run\<lparr>vcnStart := 0\<rparr>)) (ParseRunsArray a1)
      = map_sum id (map (\<lambda>run. run\<lparr>vcnStart := 0\<rparr>)) (ParseRunsArray a2)"
    using ParseRunsArray_core[of a1] ParseRunsArray_core[of a2] assms by simp
  show ?thesis
  proof (cases "ParseRunsArray a1")
    case (Inl e)
    with core show ?thesis by (cases "ParseRunsArray a2") simp_all
  next
    case r1: (Inr r1)
    show ?thesis
    proof (cases "ParseRunsArray a2")
      case (Inl e)
      with core r1 show ?thesis by simp
    next
      case r2: (Inr r2)
      from core r1 r2 have "map (\<lambda>run. run\<lparr>vcnStart := 0\<rparr>) r1
          = map (\<lambda>run. run\<lparr>vcnStart := 0\<rparr>) r2" by simp
      hence "DataRunRecoveryWorker_Execute env fuel drive r1 cs fs p
          = DataRunRecoveryWorker_Execute env fuel drive r2 cs fs p"
        using Execute_ignores_vcn[of env fuel drive r1 cs fs p]
              Execute_ignores_vcn[of env fuel drive r2 cs fs p] by simp
      with r1 r2 show ?thesis by simp
    qed
  qed
qed

text \<open>
  Claim C10. Two \<open>recoverDataRuns\<close> calls whose arguments differ only in the \<open>vcn\<close>
  fields of their run entries (also in whether an entry has one) have the same outcome:
  the same error thrown, or the same result of the worker, error message and output-file
  bytes alike. The \<open>vcn\<close> field is parsed and stored, and never read by the writer.
\<close>

theorem RecoverDataRuns_ignores_vcn:
  assumes "map without_vcn runs1 = map without_vcn runs2"
  shows "RecoverDataRuns env fuel (info[1 := JSArray runs1])
       = RecoverDataRuns env fuel (info[1 := JSArray runs2])"
proof -
  define queued where "queued = (\<lambda>a drive cs fs p.
      case ParseRunsArray a of Inl err \<Rightarrow> Thrown err
      | Inr runs \<Rightarrow> Queued (DataRunRecoveryWorker_Execute env fuel drive runs cs fs p))"
  have eq: "queued runs1 = queued runs2"
    unfolding queued_def using queued_ignores_vcn[OF assms] by (intro ext)
  have unfold: "RecoverDataRuns env fuel i =
     (if length i < 6
      then Thrown ''Expected drive, runs, cluster size, file size, output path, and callback''
      else case i ! 0 of
        JSString drive \<Rightarrow>
          (case i ! 1 of
             JSArray runsArray \<Rightarrow>
               (case parse_size_argument (i ! 2) True ''Invalid cluster size''
                       ''Cluster size must be positive'' ''Cluster size must be numeric'' of
                  Inl err \<Rightarrow> Thrown err
                | Inr cs \<Rightarrow>
                    (case parse_size_argument (i ! 3) False ''Invalid file size''
                            ''File size must be positive'' ''File size must be numeric'' of
                       Inl err \<Rightarrow> Thrown err
                     | Inr fs \<Rightarrow>
                         (case i ! 4 of
                            JSString outputPath \<Rightarrow>
                              (case i ! 5 of
                                 JSFunction \<Rightarrow>
                                   queued runsArray drive cs fs (Utf8ToWide env outputPath)
                               | _ \<Rightarrow> Thrown ''Callback must be a function'')
                          | _ \<Rightarrow> Thrown ''Output path must be a string'')))
           | _ \<Rightarrow> Thrown ''Runs must be an array'')
      | _ \<Rightarrow> Thrown ''Drive letter must be a string'')" for i
    unfolding RecoverDataRuns_def queued_def ..
  show ?thesis
  proof (cases "length info < 6")
    case True
    thus ?thesis by (simp add: RecoverDataRuns_def)
  next
    case False
    thus ?thesis
      unfolding unfold by (simp add: eq split: jsvalue.split sum.split)
  qed
qed

text \<open>The same run, once with \<open>vcn\<close> 7 given first and once with \<open>vcn\<close> 9 given last.\<close>

theorem RecoverDataRuns_ignores_vcn_witness:
  "map without_vcn [JSObject [(''vcn'', JSString ''7''), (''lcn'', JSString ''1''),
                              (''length'', JSNumber 1)]]
     = map without_vcn [JSObject [(''lcn'', JSString ''1''), (''length'', JSNumber 1),
                                  (''vcn'', JSNumber 9)]]
   \<and> RecoverDataRuns small_volume (Suc (Suc 0))
       ([JSString ''c'', JSNull, JSNumber 4, JSString ''6'', JSString ''out'', JSFunction]
          [1 := JSArray [JSObject [(''vcn'', JSString ''7''), (''lcn'', JSString ''1''),
                                   (''length'', JSNumber 1)]]])
     = Queued (Some (None, Some [14, 15, 16, 17, 0, 0]))
   \<and> RecoverDataRuns small_volume (Suc (Suc 0))
       ([JSString ''c'', JSNull, JSNumber 4, JSString ''6'', JSString ''out'', JSFunction]
          [1 := JSArray [JSObject [(''lcn'', JSString ''1''), (''length'', JSNumber 1),
                                   (''vcn'', JSNumber 9)]]])
     = Queued (Some (None, Some [14, 15, 16, 17, 0, 0]))"
proof -
  have same: "map without_vcn [JSObject [(''vcn'', JSString ''7''), (''lcn'', JSString ''1''),
                              (''length'', JSNumber 1)]]
     = map without_vcn [JSObject [(''lcn'', JSString ''1''), (''length'', JSNumber 1),
                                  (''vcn'', JSNumber 9)]]"
    by (simp add: without_vcn_def)
  have first: "RecoverDataRuns small_volume (Suc (Suc 0))
       ([JSString ''c'', JSNull, JSNumber 4, JSString ''6'', JSString ''out'', JSFunction]
          [1 := JSArray [JSObject [(''vcn'', JSString ''7''), (''lcn'', JSString ''1''),
                                   (''length'', JSNumber 1)]]])
     = Queued (Some (None, Some [14, 15, 16, 17, 0, 0]))"
    by (simp add: parse_eval call_eval io_eval Let_def zero_bytes)
  from RecoverDataRuns_ignores_vcn[OF same, of small_volume "Suc (Suc 0)"
      "[JSString ''c'', JSNull, JSNumber 4, JSString ''6'', JSString ''out'', JSFunction]"]
    same first
  show ?thesis by simp
qed

subsection \<open>The content of the recovered file\<close>

lemma WriteFile_bound: "WriteFile env out n = Inr written \<Longrightarrow> written \<le> n"
  by (auto simp add: WriteFile_def split: sum.splits)

lemma zero_chunk:
  "written \<le> bufferSize \<Longrightarrow> take written (replicate bufferSize (0 :: byte)) = replicate written 0"
  by (simp add: min_absorb1)

lemma DWORD_chunk: "written \<le> chunk mod 2 ^ 32 \<Longrightarrow> written \<le> (chunk :: nat)"
  by (rule order_trans[OF _ mod_less_eq_dividend])

lemma sparse_loop_content:
  "sparse_loop env fuel bufferSize bytesToCopy produced out = Some (None, out')
   \<Longrightarrow> produced \<le> bytesToCopy
   \<Longrightarrow> out' = out @ replicate (bytesToCopy - produced) 0"
proof (induction fuel arbitrary: produced out)
  case 0
  thus ?case by (simp split: if_splits)
next
  case (Suc fuel)
  show ?case
  proof (cases "produced < bytesToCopy")
    case False
    with Suc.prems show ?thesis by simp
  next
    case True
    define chunk where "chunk = min (bytesToCopy - produced) bufferSize"
    from Suc.prems(1) True obtain written where
      w: "WriteFile env out (chunk mod 2 ^ 32) = Inr written"
      and rec: "sparse_loop env fuel bufferSize bytesToCopy (produced + written)
                  (out @ take written (replicate bufferSize 0)) = Some (None, out')"
      by (simp add: Let_def chunk_def[symmetric] split: sum.splits)
    have wc: "written \<le> chunk"
      using WriteFile_bound[OF w] by (rule DWORD_chunk)
    hence wb: "written \<le> bufferSize" and wr: "written \<le> bytesToCopy - produced"
      unfolding chunk_def by simp_all
    from wr True have le: "produced + written \<le> bytesToCopy" by linarith
    have "out' = (out @ replicate written 0) @ replicate (bytesToCopy - (produced + written)) 0"
      using Suc.IH[OF rec le] zero_chunk[OF wb] by simp
    also have "\<dots> = out @ replicate (written + (bytesToCopy - (produced + written))) 0"
      by (simp add: replicate_add)
    also have "written + (bytesToCopy - (produced + written)) = bytesToCopy - produced"
      using le by linarith
    finally show ?thesis .
  qed
qed

lemma padding_loop_content:
  "padding_loop env fuel bufferSize remaining out = Some (None, out')
   \<Longrightarrow> out' = out @ replicate remaining 0"
proof (induction fuel arbitrary: remaining out)
  case 0
  thus ?case by (simp split: if_splits)
next
  case (Suc fuel)
  show ?case
  proof (cases "remaining > 0")
    case False
    with Suc.prems show ?thesis by simp
  next
    case True
    define chunk where "chunk = min remaining bufferSize"
    from Suc.prems(1) True obtain written where
      w: "WriteFile env out (chunk mod 2 ^ 32) = Inr written"
      and rec: "padding_loop env fuel bufferSize (remaining - written)
                  (out @ take written (replicate bufferSize 0)) = Some (None, out')"
      by (simp add: Let_def chunk_def[symmetric] split: sum.splits)
    have wc: "written \<le> chunk"
      using WriteFile_bound[OF w] by (rule DWORD_chunk)
    hence wb: "written \<le> bufferSize" and wr: "written \<le> remaining"
      unfolding chunk_def by simp_all
    have "out' = (out @ replicate written 0) @ replicate (remaining - written) 0"
      using Suc.IH[OF rec] zero_chunk[OF wb] by simp
    also have "\<dots> = out @ replicate (written + (remaining - written)) 0"
      by (simp add: replicate_add)
    also have "written + (remaining - written) = remaining"
      using wr by linarith
    finally show ?thesis .
  qed
qed

lemma ReadFile_bytes:
  assumes "ReadFile env pos n = Inr bytes"
  shows "bytes = take (length bytes) (drop pos (volume_image env))" and "length bytes \<le> n"
proof -
  from assms obtain k where b: "bytes = take (min k n) (drop pos (volume_image env))"
    by (auto simp add: ReadFile_def split: sum.splits)
  show "bytes = take (length bytes) (drop pos (volume_image env))"
    unfolding b by (simp add: min_def)
  show "length bytes \<le> n"
    unfolding b by simp
qed

lemma take_then_take:
  assumes "n \<le> m"
  shows "take n xs @ take (m - n) (drop n xs) = take m xs"
proof -
  have "take (n + (m - n)) xs = take n xs @ take (m - n) (drop n xs)"
    by (rule take_add)
  with assms show ?thesis by simp
qed

lemma copy_loop_content:
  "copy_loop env fuel bufferSize bytesToCopy processed pos out = Some (None, out')
   \<Longrightarrow> processed \<le> bytesToCopy
   \<Longrightarrow> out' = out @ take (bytesToCopy - processed) (drop pos (volume_image env))
       \<and> pos + (bytesToCopy - processed) \<le> max pos (length (volume_image env))"
proof (induction fuel arbitrary: processed pos out)
  case 0
  thus ?case by (simp split: if_splits)
next
  case (Suc fuel)
  show ?case
  proof (cases "processed < bytesToCopy")
    case False
    with Suc.prems show ?thesis by simp
  next
    case True
    define chunk where "chunk = min (bytesToCopy - processed) bufferSize"
    define vol where "vol = volume_image env"
    from Suc.prems(1) True obtain bytes where
      r: "ReadFile env pos (chunk mod 2 ^ 32) = Inr bytes"
      and ne: "length bytes \<noteq> 0"
      and rec: "copy_loop env fuel bufferSize bytesToCopy (processed + length bytes)
                  (pos + length bytes) (out @ bytes) = Some (None, out')"
      by (simp add: Let_def chunk_def[symmetric] split: sum.splits if_splits)
    have bc: "length bytes \<le> chunk"
      using ReadFile_bytes(2)[OF r] by (rule DWORD_chunk)
    hence br: "length bytes \<le> bytesToCopy - processed"
      unfolding chunk_def by simp
    from br True have le: "processed + length bytes \<le> bytesToCopy" by linarith
    have bytes: "bytes = take (length bytes) (drop pos vol)"
      unfolding vol_def by (rule ReadFile_bytes(1)[OF r])
    have "length bytes = length (take (length bytes) (drop pos vol))"
      using bytes by (rule arg_cong)
    also have "\<dots> \<le> length vol - pos"
      by simp
    finally have "length bytes \<le> length vol - pos" .
    with ne have inside: "pos + length bytes \<le> length vol"
      by linarith
    note ih = Suc.IH[OF rec le, folded vol_def]
    have rest: "bytesToCopy - (processed + length bytes) = (bytesToCopy - processed) - length bytes"
      by simp
    have "take (length bytes) (drop pos vol)
          @ take ((bytesToCopy - processed) - length bytes) (drop (length bytes) (drop pos vol))
        = take (bytesToCopy - processed) (drop pos vol)"
      by (rule take_then_take[OF br])
    hence joined: "bytes @ take (bytesToCopy - (processed + length bytes))
                     (drop (pos + length bytes) vol)
        = take (bytesToCopy - processed) (drop pos vol)"
      unfolding bytes[symmetric] rest by (simp add: add.commute)
    from ih have "out' = out @ (bytes @ take (bytesToCopy - (processed + length bytes))
                     (drop (pos + length bytes) vol))"
      by simp
    hence a: "out' = out @ take (bytesToCopy - processed) (drop pos vol)"
      unfolding joined .
    from ih inside le have b: "pos + (bytesToCopy - processed) \<le> max pos (length vol)"
      by linarith
    from a b show ?thesis unfolding vol_def by simp
  qed
qed


lemma positive_sint_uint:
  assumes "0 < sint (x :: 64 word)"
  shows "uint x = sint x"
proof (cases "unat x < 2 ^ 63")
  case True
  from sint_small[OF this] show ?thesis by simp
next
  case False
  hence "2 ^ 63 \<le> unat x" by simp
  moreover have "unat x < 2 ^ 64"
    using unsigned_less[of x, where 'a = nat] by simp
  ultimately have "sint (word_of_nat (unat x) :: 64 word) = int (unat x) - 2 ^ 64"
    by (rule sint_big)
  hence "sint x = uint x - 2 ^ 64" by simp
  moreover have "uint x < 2 ^ 64"
    using uint_bounded[of x] by simp
  ultimately show ?thesis using assms by linarith
qed

lemma run_bytes:
  assumes "0 < sint (l :: 64 word)" "sint l * uint (cs :: 64 word) < 2 ^ 64"
  shows "unat (l * cs) = nat (sint l) * unat cs"
proof -
  have u: "uint l = sint l" using assms(1) by (rule positive_sint_uint)
  have "int (unat l * unat cs) < int (2 ^ 64)"
    using assms(2) unfolding u[symmetric] by simp
  hence "unat l * unat cs < 2 ^ 64"
    by (rule of_nat_less_imp_less)
  hence "unat (l * cs) = unat l * unat cs"
    by (simp add: unat_mult_lem[symmetric])
  moreover have "unat l = nat (sint l)"
    unfolding u[symmetric] by simp
  ultimately show ?thesis by simp
qed

lemma run_offset:
  assumes "0 < sint (c :: 64 word)" "sint c * uint (cs :: 64 word) < 2 ^ 63"
  shows "sint (c * cs) = sint c * uint cs"
proof -
  have u: "uint c = sint c" using assms(1) by (rule positive_sint_uint)
  have "c * cs = word_of_int (uint c * uint cs)"
    by simp
  hence w: "c * cs = word_of_int (sint c * uint cs)"
    unfolding u .
  have "0 \<le> sint c * uint cs"
    using assms(1) by simp
  hence "- (2 ^ 63) \<le> sint c * uint cs" by simp
  from sint_in_range[OF this assms(2)] show ?thesis
    unfolding w .
qed

lemma run_position:
  assumes "0 < sint (c :: 64 word)"
  shows "nat (sint c * uint (cs :: 64 word)) = nat (sint c) * unat cs"
  using assms by (simp add: nat_mult_distrib)

lemma runs_loop_content:
  "runs_loop env fuel cs bufferSize runs remaining out = Some (None, remaining', out')
   \<Longrightarrow> products_fit cs runs
   \<Longrightarrow> out' @ replicate remaining' 0
         = out @ specified_content (volume_image env) (unat cs) runs remaining
       \<and> length out' + remaining' = length out + remaining"
proof (induction runs arbitrary: remaining out)
  case Nil
  thus ?case by simp
next
  case (Cons run rest)
  define vol where "vol = volume_image env"
  from Cons.prems(2) have fit_rest: "products_fit cs rest"
    and fit: "sint (length_run run) \<le> 0
              \<or> (sint (length_run run) * uint cs < 2 ^ 64
                 \<and> (sparse run \<or> sint (lcn run) \<le> 0 \<or> sint (lcn run) * uint cs < 2 ^ 63))"
    by (simp_all add: products_fit_def)
  show ?case
  proof (cases "remaining = 0")
    case True
    with Cons.prems(1) show ?thesis by simp
  next
    case more: False
    show ?thesis
    proof (cases "sint (length_run run) \<le> 0")
      case True
      with more Cons.prems(1) have
        "runs_loop env fuel cs bufferSize rest remaining out = Some (None, remaining', out')"
        by simp
      from Cons.IH[OF this fit_rest] True more show ?thesis by simp
    next
      case False
      hence pos: "0 < sint (length_run run)" by simp
      with fit have f64: "sint (length_run run) * uint cs < 2 ^ 64" by simp
      define toCopy where "toCopy = min (nat (sint (length_run run)) * unat cs) remaining"
      have total: "unat (length_run run * cs) = nat (sint (length_run run)) * unat cs"
        using pos f64 by (rule run_bytes)
      have le: "toCopy \<le> remaining" unfolding toCopy_def by simp
      show ?thesis
      proof (cases "sparse run \<or> sint (lcn run) \<le> 0")
        case True
        from Cons.prems(1) more False True obtain out1 where
          s: "sparse_loop env fuel bufferSize toCopy 0 out = Some (None, out1)"
          and rec: "runs_loop env fuel cs bufferSize rest (remaining - toCopy) out1
                    = Some (None, remaining', out')"
          by (simp add: Let_def total toCopy_def[symmetric]
              split: option.splits prod.splits)
        from sparse_loop_content[OF s] have o1: "out1 = out @ replicate toCopy 0" by simp
        from Cons.IH[OF rec fit_rest] have
          a: "out' @ replicate remaining' 0
              = out1 @ specified_content vol (unat cs) rest (remaining - toCopy)"
          and b: "length out' + remaining' = length out1 + (remaining - toCopy)"
          unfolding vol_def by simp_all
        have "specified_content vol (unat cs) (run # rest) remaining
            = replicate toCopy 0 @ specified_content vol (unat cs) rest (remaining - toCopy)"
          using more False True by (simp add: Let_def toCopy_def[symmetric])
        with a b o1 le show ?thesis unfolding vol_def by simp
      next
        case normal: False
        hence lpos: "0 < sint (lcn run)" by simp
        with fit pos normal have f63: "sint (lcn run) * uint cs < 2 ^ 63" by simp
        have off: "sint (lcn run * cs) = sint (lcn run) * uint cs"
          using lpos f63 by (rule run_offset)
        define start where "start = nat (sint (lcn run)) * unat cs"
        have st: "nat (sint (lcn run * cs)) = start"
          unfolding off start_def using lpos by (rule run_position)
        from Cons.prems(1) more False normal obtain out1 where
          c: "copy_loop env fuel bufferSize toCopy 0 start out = Some (None, out1)"
          and rec: "runs_loop env fuel cs bufferSize rest (remaining - toCopy) out1
                    = Some (None, remaining', out')"
          by (simp add: Let_def total toCopy_def[symmetric] st
              split: option.splits prod.splits)
        from copy_loop_content[OF c] have
          o1: "out1 = out @ take toCopy (drop start vol)"
          and inside: "start + toCopy \<le> max start (length vol)"
          unfolding vol_def by simp_all
        from inside have full: "length (take toCopy (drop start vol)) = toCopy"
          by (simp add: min_def) linarith
        from Cons.IH[OF rec fit_rest] have
          a: "out' @ replicate remaining' 0
              = out1 @ specified_content vol (unat cs) rest (remaining - toCopy)"
          and b: "length out' + remaining' = length out1 + (remaining - toCopy)"
          unfolding vol_def by simp_all
        have "specified_content vol (unat cs) (run # rest) remaining
            = take toCopy (drop start vol)
              @ specified_content vol (unat cs) rest (remaining - toCopy)"
          using more False normal by (simp add: Let_def toCopy_def[symmetric] start_def)
        moreover have "length out1 = length out + toCopy"
          unfolding o1 using full by simp
        ultimately show ?thesis
          using a b o1 le unfolding vol_def by simp
      qed
    qed
  qed
qed

text \<open>
  Claim C1, as amended. When no product \<open>length * clusterSize\<close> or \<open>lcn * clusterSize\<close>
  overflows, a successful recovery leaves an output file of exactly \<open>fileSize\<close> bytes
  whose content is, in run order over the runs with a length above 0 and while bytes
  remain, \<open>min (length * clusterSize) remaining\<close> bytes per run: zero bytes when the run
  is sparse or its \<open>lcn\<close> is not positive, and otherwise the volume bytes from byte offset
  \<open>lcn * clusterSize\<close>; then zero bytes up to \<open>fileSize\<close>.
\<close>

theorem DataRunRecoveryWorker_Execute_content:
  assumes "products_fit cs runs"
      and "DataRunRecoveryWorker_Execute env fuel drive runs cs fs outputPath
           = Some (None, written)"
  shows "written = Some (specified_content (volume_image env) (unat cs) runs (unat fs))
       \<and> length (specified_content (volume_image env) (unat cs) runs (unat fs)) = unat fs"
proof -
  define bufferSize where "bufferSize = unat (cs * 16)"
  from assms(2) obtain remaining out out' where
    loop: "runs_loop env fuel cs bufferSize runs (unat fs) [] = Some (None, remaining, out)"
    and pad: "padding_loop env fuel bufferSize remaining out = Some (None, out')"
    and w: "written = Some out'"
    by (auto simp add: DataRunRecoveryWorker_Execute_def Let_def bufferSize_def[symmetric]
        split: if_splits option.splits prod.splits)
  from runs_loop_content[OF loop assms(1)] have
    a: "out @ replicate remaining 0
        = specified_content (volume_image env) (unat cs) runs (unat fs)"
    and b: "length out + remaining = unat fs"
    by simp_all
  from padding_loop_content[OF pad] have "out' = out @ replicate remaining 0" .
  with a have c: "out' = specified_content (volume_image env) (unat cs) runs (unat fs)"
    by simp
  from b have "length (out @ replicate remaining 0) = unat fs" by simp
  with a c w show ?thesis by simp
qed



text \<open>
  A run of one cluster read from the volume, a sparse run of one cluster, and two bytes of
  padding, with 4-byte clusters.
\<close>

theorem DataRunRecoveryWorker_Execute_content_witness:
  "products_fit 4 [\<lparr>vcnStart = 0, lcn = 1, length_run = 1, sparse = False\<rparr>,
                   \<lparr>vcnStart = 1, lcn = 0, length_run = 1, sparse = True\<rparr>]
   \<and> DataRunRecoveryWorker_Execute small_volume (Suc (Suc 0)) ''c''
         [\<lparr>vcnStart = 0, lcn = 1, length_run = 1, sparse = False\<rparr>,
          \<lparr>vcnStart = 1, lcn = 0, length_run = 1, sparse = True\<rparr>] 4 10 [111]
       = Some (None, Some [14, 15, 16, 17, 0, 0, 0, 0, 0, 0])
   \<and> specified_content (volume_image small_volume) (unat (4 :: ULONGLONG))
         [\<lparr>vcnStart = 0, lcn = 1, length_run = 1, sparse = False\<rparr>,
          \<lparr>vcnStart = 1, lcn = 0, length_run = 1, sparse = True\<rparr>] (unat (10 :: ULONGLONG))
       = [14, 15, 16, 17, 0, 0, 0, 0, 0, 0]"
proof -
  have fit: "products_fit 4 [\<lparr>vcnStart = 0, lcn = 1, length_run = 1, sparse = False\<rparr>,
                   \<lparr>vcnStart = 1, lcn = 0, length_run = 1, sparse = True\<rparr>]"
    by (simp add: products_fit_def)
  have run: "DataRunRecoveryWorker_Execute small_volume (Suc (Suc 0)) ''c''
         [\<lparr>vcnStart = 0, lcn = 1, length_run = 1, sparse = False\<rparr>,
          \<lparr>vcnStart = 1, lcn = 0, length_run = 1, sparse = True\<rparr>] 4 10 [111]
       = Some (None, Some [14, 15, 16, 17, 0, 0, 0, 0, 0, 0])"
    by (simp add: DataRunRecoveryWorker_Execute_def io_eval Let_def zero_bytes)
  from DataRunRecoveryWorker_Execute_content[OF fit run] fit run show ?thesis
    by simp
qed

text \<open>
  The claim as stated, without the restriction on the products, fails: with 4-byte
  clusters a run of \<open>2 ^ 62\<close> clusters has \<open>runBytesTotal = 0\<close> in 64 bits, nothing is
  copied for it, and the two bytes of the file are padding, where the claim takes them
  from the volume at byte offset 4.
\<close>

theorem DataRunRecoveryWorker_Execute_overflow_counterexample:
  "DataRunRecoveryWorker_Execute small_volume (Suc (Suc 0)) ''c''
         [\<lparr>vcnStart = 0, lcn = 1, length_run = 4611686018427387904, sparse = False\<rparr>] 4 2 [111]
       = Some (None, Some [0, 0])
   \<and> specified_content (volume_image small_volume) (unat (4 :: ULONGLONG))
         [\<lparr>vcnStart = 0, lcn = 1, length_run = 4611686018427387904, sparse = False\<rparr>]
         (unat (2 :: ULONGLONG))
       = [14, 15]"
  by (simp add: DataRunRecoveryWorker_Execute_def io_eval Let_def zero_bytes)

subsection \<open>The worker returns\<close>

text \<open>
  The loops of the worker end when every write of at least one byte writes at least one
  byte and the buffer is smaller than 4 GiB (so that the cast of the chunk size to
  \<^verbatim>\<open>DWORD\<close> keeps it): fuel of \<open>fileSize\<close> iterations is then enough, whatever else
  the system calls do. A read of no byte ends the copy loop with an error.
\<close>

lemma DWORD_chunk_positive:
  assumes "0 < m" "0 < bufferSize" "bufferSize < 2 ^ 32"
  shows "0 < min (m :: nat) bufferSize mod 2 ^ 32"
proof -
  have "min m bufferSize < 2 ^ 32" using assms(3) by simp
  hence "min m bufferSize mod 2 ^ 32 = min m bufferSize" by simp
  with assms(1,2) show ?thesis by simp
qed

lemma WriteFile_progress:
  assumes "\<And>sz n. 0 < n \<Longrightarrow> write_count env sz n \<noteq> Inr 0"
      and "0 < n" "WriteFile env out n = Inr written"
  shows "0 < written"
proof -
  from assms(3) obtain w where w: "write_count env (length out) n = Inr w"
    and m: "written = min w n"
    by (auto simp add: WriteFile_def split: sum.splits)
  from assms(1)[OF assms(2), of "length out"] w have "0 < w" by simp
  with m assms(2) show ?thesis by simp
qed

lemma sparse_loop_returns:
  assumes "\<And>sz n. 0 < n \<Longrightarrow> write_count env sz n \<noteq> Inr 0"
      and "0 < bufferSize" "bufferSize < 2 ^ 32"
  shows "bytesToCopy - produced \<le> fuel
         \<Longrightarrow> \<exists>r. sparse_loop env fuel bufferSize bytesToCopy produced out = Some r"
proof (induction fuel arbitrary: produced out)
  case 0
  thus ?case by simp
next
  case (Suc fuel)
  show ?case
  proof (cases "produced < bytesToCopy")
    case False
    thus ?thesis by simp
  next
    case True
    define n where "n = min (bytesToCopy - produced) bufferSize mod 2 ^ 32"
    have n: "0 < n"
      unfolding n_def using True assms(2,3) by (intro DWORD_chunk_positive) simp_all
    show ?thesis
    proof (cases "WriteFile env out n")
      case (Inl err)
      with True show ?thesis unfolding n_def by (simp add: Let_def)
    next
      case (Inr written)
      from WriteFile_progress[OF assms(1) n Inr] have "0 < written" .
      with Suc.prems True have "bytesToCopy - (produced + written) \<le> fuel" by linarith
      from Suc.IH[OF this] Inr True show ?thesis
        unfolding n_def by (simp add: Let_def)
    qed
  qed
qed

lemma padding_loop_returns:
  assumes "\<And>sz n. 0 < n \<Longrightarrow> write_count env sz n \<noteq> Inr 0"
      and "0 < bufferSize" "bufferSize < 2 ^ 32"
  shows "remaining \<le> fuel
         \<Longrightarrow> \<exists>r. padding_loop env fuel bufferSize remaining out = Some r"
proof (induction fuel arbitrary: remaining out)
  case 0
  thus ?case by simp
next
  case (Suc fuel)
  show ?case
  proof (cases "remaining > 0")
    case False
    thus ?thesis by simp
  next
    case True
    define n where "n = min remaining bufferSize mod 2 ^ 32"
    have n: "0 < n"
      unfolding n_def using True assms(2,3) by (intro DWORD_chunk_positive) simp_all
    show ?thesis
    proof (cases "WriteFile env out n")
      case (Inl err)
      with True show ?thesis unfolding n_def by (simp add: Let_def)
    next
      case (Inr written)
      from WriteFile_progress[OF assms(1) n Inr] have "0 < written" .
      with Suc.prems True have "remaining - written \<le> fuel" by linarith
      from Suc.IH[OF this] Inr True show ?thesis
        unfolding n_def by (simp add: Let_def)
    qed
  qed
qed

lemma copy_loop_returns:
  "bytesToCopy - processed \<le> fuel
   \<Longrightarrow> \<exists>r. copy_loop env fuel bufferSize bytesToCopy processed pos out = Some r"
proof (induction fuel arbitrary: processed pos out)
  case 0
  thus ?case by simp
next
  case (Suc fuel)
  show ?case
  proof (cases "processed < bytesToCopy")
    case False
    thus ?thesis by simp
  next
    case True
    define n where "n = min (bytesToCopy - processed) bufferSize mod 2 ^ 32"
    show ?thesis
    proof (cases "ReadFile env pos n")
      case (Inl err)
      with True show ?thesis unfolding n_def by (simp add: Let_def)
    next
      case (Inr bytes)
      show ?thesis
      proof (cases "length bytes = 0")
        case True
        with Inr \<open>processed < bytesToCopy\<close> show ?thesis
          unfolding n_def by (simp add: Let_def)
      next
        case False
        with Suc.prems True have "bytesToCopy - (processed + length bytes) \<le> fuel"
          by linarith
        from Suc.IH[OF this, of "pos + length bytes" "out @ bytes"] Inr True False
        show ?thesis
          unfolding n_def
          by (cases "WriteFile env out (length bytes)") (auto simp add: Let_def)
      qed
    qed
  qed
qed

lemma runs_loop_returns:
  assumes "\<And>sz n. 0 < n \<Longrightarrow> write_count env sz n \<noteq> Inr 0"
      and "0 < bufferSize" "bufferSize < 2 ^ 32"
  shows "remaining \<le> fuel
         \<Longrightarrow> \<exists>err remaining' out'.
               runs_loop env fuel cs bufferSize runs remaining out = Some (err, remaining', out')
               \<and> remaining' \<le> remaining"
proof (induction runs arbitrary: remaining out)
  case Nil
  thus ?case by simp
next
  case (Cons run rest)
  define toCopy where "toCopy = min (unat (length_run run * cs)) remaining"
  have le: "toCopy \<le> fuel" unfolding toCopy_def using Cons.prems by simp
  have rest: "\<exists>err remaining' out'.
      runs_loop env fuel cs bufferSize rest (remaining - toCopy) out1
        = Some (err, remaining', out') \<and> remaining' \<le> remaining" for out1
  proof -
    from Cons.prems have "remaining - toCopy \<le> fuel" by simp
    from Cons.IH[OF this, of out1] show ?thesis by (meson diff_le_self order_trans)
  qed
  show ?case
  proof (cases "remaining = 0 \<or> sint (length_run run) \<le> 0")
    case True
    thus ?thesis using Cons.IH[OF Cons.prems, of out] by auto
  next
    case False
    show ?thesis
    proof (cases "sparse run \<or> sint (lcn run) \<le> 0")
      case True
      from sparse_loop_returns[OF assms, of toCopy 0 fuel out] le
      obtain e out1 where "sparse_loop env fuel bufferSize toCopy 0 out = Some (e, out1)"
        by auto
      with False True rest[of out1] show ?thesis
        by (cases e) (auto simp add: Let_def toCopy_def[symmetric])
    next
      case normal: False
      from copy_loop_returns[of toCopy 0 fuel env bufferSize "nat (sint (lcn run * cs))" out] le
      obtain e out1 where
        "copy_loop env fuel bufferSize toCopy 0 (nat (sint (lcn run * cs))) out = Some (e, out1)"
        by auto
      with False normal rest[of out1] show ?thesis
        by (cases e; cases "SetFilePointerEx env (sint (lcn run * cs))")
           (auto simp add: Let_def toCopy_def[symmetric])
    qed
  qed
qed

lemma DataRunRecoveryWorker_Execute_returns:
  assumes "\<And>sz n. 0 < n \<Longrightarrow> write_count env sz n \<noteq> Inr 0"
      and "0 < unat (cs * 16)" "unat (cs * 16) < 2 ^ 32"
      and "unat fs \<le> fuel"
  shows "\<exists>r. DataRunRecoveryWorker_Execute env fuel drive runs cs fs outputPath = Some r"
proof -
  from runs_loop_returns[OF assms(1,2,3) assms(4), of cs runs "[]"]
  obtain err remaining out where
    loop: "runs_loop env fuel cs (unat (cs * 16)) runs (unat fs) [] = Some (err, remaining, out)"
    and le: "remaining \<le> unat fs"
    by blast
  from le assms(4) have "remaining \<le> fuel" by simp
  from padding_loop_returns[OF assms(1,2,3) this, of out]
  obtain r where pad: "padding_loop env fuel (unat (cs * 16)) remaining out = Some r" ..
  show ?thesis
    unfolding DataRunRecoveryWorker_Execute_def Let_def loop
    using pad by (cases err; cases r) (auto split: option.split)
qed

end
